theory Spec2Isabelle
  imports Complex_Main "HOL-Library.AList" "HOL-Library.Sublist"
begin

section \<open>Hybrid retrieval of scientific papers: the fusion and ranking core\<close>

text \<open>
  The repository holds several generations of one search engine. The development below
  embeds the ranking code of three of them:
  \<^item> \<^verbatim>\<open>final_code/search_engine.py\<close> and \<^verbatim>\<open>final_code/database.py\<close>
    (class \<^verbatim>\<open>HybridSearchEngine\<close>, class \<^verbatim>\<open>VectorDatabase\<close>);
  \<^item> \<^verbatim>\<open>arxiv-search-engine/src/search_engine.py\<close> (class \<^verbatim>\<open>SearchEngine\<close>);
  \<^item> \<^verbatim>\<open>ArxIV/backend.py\<close> (function \<^verbatim>\<open>expand_query_with_gemma\<close>).

  Python floats are idealised as exact reals (no rounding, no NaN, no infinities).
  Python dictionaries that are iterated keep their insertion order, so they are
  association lists; assigning to a key that is present replaces the value in place,
  assigning to a new key appends, which is what \<^const>\<open>AList.update\<close> does.
  Everything outside the repository (the Ollama client, ChromaDB, the BM25 library, NumPy,
  the regular-expression engine) is a parameter of the model.
\<close>

subsection \<open>Data of \<^verbatim>\<open>final_code\<close>\<close>

type_synonym metadata = "(string \<times> string) list"

text \<open>
  The dictionary that \<^verbatim>\<open>VectorDatabase.search\<close> builds for one hit. The dictionary that
  \<^verbatim>\<open>hybrid_search\<close> builds for a document found by BM25 alone has no key
  \<^verbatim>\<open>'distance'\<close>: there the field is \<open>None\<close>.
\<close>

record result =
  id' :: string
  document :: string
  distance :: "real option"
  score :: real
  metadata :: metadata

text \<open>One entry of the list \<^verbatim>\<open>bm25_search\<close> returns.\<close>

record bm25_result =
  b_index :: nat
  b_bm25_score :: real
  b_document :: string

text \<open>A value of the dictionary \<^verbatim>\<open>combined_results\<close>.\<close>

record combined =
  c_semantic_score :: real
  c_bm25_score :: real
  c_result :: result

text \<open>
  An element of \<^verbatim>\<open>final_results\<close>: a copy of the hit with the three keys
  \<^verbatim>\<open>hybrid_score\<close>, \<^verbatim>\<open>semantic_score\<close> and \<^verbatim>\<open>bm25_score\<close> added.
\<close>

record final_result = result +
  hybrid_score :: real
  semantic_score :: real
  bm25_score :: real

subsection \<open>The fusion of \<^verbatim>\<open>HybridSearchEngine.hybrid_search\<close>\<close>

text \<open>
  \<^verbatim>\<open>x_range = max - min if max != min else 1\<close>, then
  \<^verbatim>\<open>(raw - min) / x_range\<close>, over the raw scores of one channel.
\<close>

definition score_range :: "real list \<Rightarrow> real" where
  "score_range raws =
     (let max_score = Max (set raws); min_score = Min (set raws)
      in if max_score \<noteq> min_score then max_score - min_score else 1)"

definition normalized_score :: "real list \<Rightarrow> real \<Rightarrow> real" where
  "normalized_score raws raw = (raw - Min (set raws)) / score_range raws"

text \<open>Lines 86 to 98: the semantic hits enter \<^verbatim>\<open>combined_results\<close> first.\<close>

definition add_vector_results ::
  "result list \<Rightarrow> (string \<times> combined) list \<Rightarrow> (string \<times> combined) list" where
  "add_vector_results vector_results combined_results =
     (if vector_results = [] then combined_results
      else fold (\<lambda>r acc.
             AList.update (id' r)
               \<lparr>c_semantic_score = normalized_score (map score vector_results) (score r),
                c_bm25_score = 0,
                c_result = r\<rparr> acc)
           vector_results combined_results)"

text \<open>
  Lines 107 to 126, the body of the loop over the BM25 hits. \<open>all_ids\<close> and
  \<open>all_metadatas\<close> are \<^verbatim>\<open>all_docs['ids']\<close> and \<^verbatim>\<open>all_docs['metadatas']\<close>, read from the
  collection at that moment; \<open>raws\<close> are the raw BM25 scores of the channel.
\<close>

definition add_bm25_result ::
  "string list \<Rightarrow> metadata list \<Rightarrow> real list \<Rightarrow> bm25_result \<Rightarrow>
   (string \<times> combined) list \<Rightarrow> (string \<times> combined) list" where
  "add_bm25_result all_ids all_metadatas raws b combined_results =
     (let idx = b_index b in
      if idx < length all_ids then
        (let doc_id = all_ids ! idx;
             normalized = normalized_score raws (b_bm25_score b)
         in case map_of combined_results doc_id of
              Some entry \<Rightarrow>
                AList.update doc_id (entry\<lparr>c_bm25_score := normalized\<rparr>) combined_results
            | None \<Rightarrow>
                AList.update doc_id
                  \<lparr>c_semantic_score = 0,
                   c_bm25_score = normalized,
                   c_result = \<lparr>id' = doc_id, document = b_document b, distance = None,
                     score = 0,
                     metadata = (if idx < length all_metadatas then all_metadatas ! idx
                                 else [])\<rparr>\<rparr>
                  combined_results)
      else combined_results)"

definition add_bm25_results ::
  "string list \<Rightarrow> metadata list \<Rightarrow> bm25_result list \<Rightarrow>
   (string \<times> combined) list \<Rightarrow> (string \<times> combined) list" where
  "add_bm25_results all_ids all_metadatas bm25_results combined_results =
     (if bm25_results = [] then combined_results
      else fold (add_bm25_result all_ids all_metadatas (map b_bm25_score bm25_results))
             bm25_results combined_results)"

text \<open>Lines 83 to 126: the dictionary after both loops.\<close>

definition combine ::
  "result list \<Rightarrow> bm25_result list \<Rightarrow> string list \<Rightarrow> metadata list \<Rightarrow>
   (string \<times> combined) list" where
  "combine vector_results bm25_results all_ids all_metadatas =
     add_bm25_results all_ids all_metadatas bm25_results
       (add_vector_results vector_results [])"

text \<open>Lines 130 to 138: one element of \<^verbatim>\<open>final_results\<close>.\<close>

definition final_of :: "real \<Rightarrow> combined \<Rightarrow> final_result" where
  "final_of semantic_weight scores =
     result.extend (c_result scores)
       (final_result.fields
          (semantic_weight * c_semantic_score scores
             + (1 - semantic_weight) * c_bm25_score scores)
          (c_semantic_score scores)
          (c_bm25_score scores))"

text \<open>
  Line 141: \<^verbatim>\<open>final_results.sort(key=lambda x: x['hybrid_score'], reverse=True)\<close>. Python's
  sort is stable, also with \<^verbatim>\<open>reverse=True\<close>: elements with equal keys keep their order.
  So does \<^const>\<open>sort_key\<close> on the negated key.
\<close>

definition sort_by_hybrid_score :: "final_result list \<Rightarrow> final_result list" where
  "sort_by_hybrid_score final_results = sort_key (\<lambda>x. - hybrid_score x) final_results"

text \<open>Lines 83 to 141: the fused, sorted list before it is cut to \<^verbatim>\<open>top_k\<close>.\<close>

definition fuse ::
  "real \<Rightarrow> result list \<Rightarrow> bm25_result list \<Rightarrow> string list \<Rightarrow> metadata list \<Rightarrow>
   final_result list" where
  "fuse semantic_weight vector_results bm25_results all_ids all_metadatas =
     sort_by_hybrid_score
       (map (\<lambda>(doc_id, scores). final_of semantic_weight scores)
          (combine vector_results bm25_results all_ids all_metadatas))"

subsection \<open>Python strings and slices\<close>

text \<open>
  A \<^typ>\<open>char\<close> stands for one code point below 256. \<open>isspace\<close> is Python's
  \<^verbatim>\<open>str.isspace\<close> on those code points: tab to carriage return, the four separators
  \<^verbatim>\<open>\x1c\<close> to \<^verbatim>\<open>\x1f\<close>, the space, \<^verbatim>\<open>\x85\<close> and \<^verbatim>\<open>\xa0\<close>.
\<close>

definition isspace :: "char \<Rightarrow> bool" where
  "isspace c = (let n = (of_char c :: nat) in
     (9 \<le> n \<and> n \<le> 13) \<or> (28 \<le> n \<and> n \<le> 32) \<or> n = 133 \<or> n = 160)"

definition newline :: char where
  "newline = CHR 0x0A"

definition strip :: "string \<Rightarrow> string" where
  "strip s = rev (dropWhile isspace (rev (dropWhile isspace s)))"

text \<open>\<^verbatim>\<open>s.replace('\n', ' ')\<close>.\<close>

definition replace_newlines :: "string \<Rightarrow> string" where
  "replace_newlines s = map (\<lambda>c. if c = newline then CHR '' '' else c) s"

text \<open>\<^verbatim>\<open>s.split('\n')[0]\<close>: the text before the first line feed.\<close>

definition first_line :: "string \<Rightarrow> string" where
  "first_line s = takeWhile (\<lambda>c. c \<noteq> newline) s"

text \<open>\<^verbatim>\<open>s.lower()\<close> on the code points below 256.\<close>

definition lower_char :: "char \<Rightarrow> char" where
  "lower_char c = (let n = (of_char c :: nat) in
     if (65 \<le> n \<and> n \<le> 90) \<or> (192 \<le> n \<and> n \<le> 222 \<and> n \<noteq> 215)
     then char_of (n + 32) else c)"

definition lower :: "string \<Rightarrow> string" where
  "lower s = map lower_char s"

text \<open>\<^verbatim>\<open>s.split()\<close>: the maximal runs of characters that are not white space.\<close>

fun split_acc :: "string \<Rightarrow> string \<Rightarrow> string list" where
  "split_acc cur [] = (if cur = [] then [] else [rev cur])"
| "split_acc cur (c # cs) =
     (if isspace c then (if cur = [] then split_acc [] cs else rev cur # split_acc [] cs)
      else split_acc (c # cur) cs)"

definition split :: "string \<Rightarrow> string list" where
  "split s = split_acc [] s"

text \<open>\<^verbatim>\<open>' '.join(xs)\<close>.\<close>

fun join_spaces :: "string list \<Rightarrow> string" where
  "join_spaces [] = []"
| "join_spaces [x] = x"
| "join_spaces (x # y # ys) = x @ CHR '' '' # join_spaces (y # ys)"

text \<open>
  \<^verbatim>\<open>xs[:k]\<close> for a Python integer \<open>k\<close>: a negative \<open>k\<close> counts from the end.
\<close>

definition slice_to :: "int \<Rightarrow> 'a list \<Rightarrow> 'a list" where
  "slice_to k xs = (if 0 \<le> k then take (nat k) xs else take (length xs - nat (- k)) xs)"

subsection \<open>The channels of \<^verbatim>\<open>final_code\<close>\<close>

text \<open>
  What a call of the Ollama client gives: it raised (no connection, a timeout, an error
  status), or it returned a mapping, whose key \<^verbatim>\<open>'response'\<close> (for
  \<^verbatim>\<open>generate\<close>) or \<^verbatim>\<open>'embedding'\<close> (for \<^verbatim>\<open>embeddings\<close>) may be missing.
\<close>

datatype 'a outcome = Raised | Returned "'a option"

text \<open>One row of what \<^verbatim>\<open>collection.query\<close> returns for the single query embedding.\<close>

record hit =
  hit_id :: string
  hit_document :: string
  hit_distance :: real
  hit_metadata :: metadata

datatype error = ChromaError

text \<open>
  The surroundings of one \<^verbatim>\<open>HybridSearchEngine\<close>:
  \<^item> \<open>generate\<close>: the reply of \<^verbatim>\<open>ollama_client.generate\<close> to the prompt built around a query;
  \<^item> \<open>embeddings\<close>: the reply of \<^verbatim>\<open>ollama_client.embeddings\<close> to a text;
  \<^item> \<open>collection_query\<close>: \<^verbatim>\<open>collection.query\<close> for an embedding, \<^verbatim>\<open>n_results\<close> and the
    \<^verbatim>\<open>where\<close> clause (a list of pairs \<open>(key, v)\<close>, each standing for
    \<^verbatim>\<open>key: {"$contains": v}\<close>), which may raise;
  \<^item> \<open>all_ids\<close>, \<open>all_metadatas\<close>: \<^verbatim>\<open>collection.get()\<close> when the search runs;
  \<^item> \<open>documents_corpus\<close>: the texts the BM25 index was built from (the index exists
    exactly when there is at least one);
  \<^item> \<open>get_scores\<close>: \<^verbatim>\<open>BM25Okapi.get_scores\<close> for the query tokens, one score per text;
  \<^item> \<open>argsort\<close>: \<^verbatim>\<open>numpy.argsort\<close>.
\<close>

record engine =
  generate :: "string \<Rightarrow> string outcome"
  embeddings :: "string \<Rightarrow> real list outcome"
  collection_query :: "real list \<Rightarrow> int \<Rightarrow> (string \<times> string) list option \<Rightarrow> error + hit list"
  all_ids :: "string list"
  all_metadatas :: "metadata list"
  documents_corpus :: "string list"
  get_scores :: "string list \<Rightarrow> real list"
  argsort :: "real list \<Rightarrow> nat list"

text \<open>
  \<^verbatim>\<open>HybridSearchEngine.expand_query\<close>, lines 26 to 45. The body of the \<^verbatim>\<open>try\<close> first,
  with the exception as a value, then the handler.
\<close>

datatype exn = ProviderError | KeyError

definition expand_query_try :: "engine \<Rightarrow> string \<Rightarrow> exn + string" where
  "expand_query_try e query =
     (case generate e query of
        Raised \<Rightarrow> Inl ProviderError
      | Returned None \<Rightarrow> Inl KeyError
      | Returned (Some response) \<Rightarrow>
          (let expanded = replace_newlines (strip response)
           in Inr (if expanded \<noteq> [] then expanded else query)))"

definition expand_query :: "engine \<Rightarrow> string \<Rightarrow> string" where
  "expand_query e query =
     (case expand_query_try e query of Inl ex \<Rightarrow> query | Inr r \<Rightarrow> r)"

text \<open>\<^verbatim>\<open>VectorDatabase.generate_embedding\<close>, lines 20 to 29.\<close>

definition generate_embedding :: "engine \<Rightarrow> string \<Rightarrow> real list" where
  "generate_embedding e text' =
     (case embeddings e text' of
        Raised \<Rightarrow> []
      | Returned None \<Rightarrow> []
      | Returned (Some embedding) \<Rightarrow> embedding)"

text \<open>
  Lines 70 to 74 of \<^verbatim>\<open>VectorDatabase.search\<close>. The argument \<^verbatim>\<open>filters\<close> is a dictionary
  whose values may be \<^verbatim>\<open>None\<close> (the application passes one when no category is
  chosen); \<^verbatim>\<open>None\<close> and the empty dictionary are both the empty list here.
\<close>

definition where_clause :: "(string \<times> string option) list \<Rightarrow> (string \<times> string) list" where
  "where_clause filters =
     fold (\<lambda>(key, v) acc.
        case v of
          None \<Rightarrow> acc
        | Some s \<Rightarrow> if s \<noteq> [] \<and> s \<noteq> ''Tous'' then AList.update key s acc else acc)
       filters []"

definition format_hit :: "hit \<Rightarrow> result" where
  "format_hit h =
     \<lparr>id' = hit_id h, document = hit_document h, distance = Some (hit_distance h),
      score = 1 - hit_distance h, metadata = hit_metadata h\<rparr>"

text \<open>\<^verbatim>\<open>VectorDatabase.search\<close>, lines 65 to 94.\<close>

definition search ::
  "engine \<Rightarrow> string \<Rightarrow> int \<Rightarrow> (string \<times> string option) list \<Rightarrow> error + result list" where
  "search e query n_results filters =
     (let embedding = generate_embedding e query in
      if embedding = [] then Inr []
      else
        (let wc = where_clause filters in
         case collection_query e embedding n_results (if wc \<noteq> [] then Some wc else None) of
           Inl err \<Rightarrow> Inl err
         | Inr hits \<Rightarrow> Inr (map format_hit hits)))"

text \<open>\<^verbatim>\<open>HybridSearchEngine.bm25_search\<close>, lines 47 to 66.\<close>

definition bm25_search :: "engine \<Rightarrow> string \<Rightarrow> int \<Rightarrow> bm25_result list" where
  "bm25_search e query top_k =
     (if documents_corpus e = [] then []
      else
        (let tokenized_query = split (lower query);
             scores = get_scores e tokenized_query;
             top_indices = slice_to top_k (rev (argsort e scores))
         in map (\<lambda>idx. \<lparr>b_index = idx, b_bm25_score = scores ! idx,
                         b_document = documents_corpus e ! idx\<rparr>)
              (filter (\<lambda>idx. scores ! idx > 0) top_indices)))"

text \<open>\<^verbatim>\<open>HybridSearchEngine.hybrid_search\<close>, lines 68 to 143.\<close>

definition hybrid_search ::
  "engine \<Rightarrow> string \<Rightarrow> int \<Rightarrow> bool \<Rightarrow> real \<Rightarrow> (string \<times> string option) list \<Rightarrow>
   error + final_result list" where
  "hybrid_search e query top_k expand semantic_weight filters =
     (let search_query = (if expand then expand_query e query else query) in
      case search e search_query (top_k * 2) filters of
        Inl err \<Rightarrow> Inl err
      | Inr vector_results \<Rightarrow>
          (let bm25_results = bm25_search e search_query (top_k * 2)
           in Inr (slice_to top_k
                (fuse semantic_weight vector_results bm25_results
                   (all_ids e) (all_metadatas e)))))"

subsection \<open>\<^verbatim>\<open>ArxIV/backend.py\<close>: query expansion over HTTP\<close>

text \<open>
  What \<^verbatim>\<open>requests.post\<close> gives: it raised (no connection, the 30 second timeout), or it
  returned a response with a status code and a body; the body is \<open>None\<close> when
  \<^verbatim>\<open>response.json()["response"]\<close> raises (no JSON, no such key, not a string).
\<close>

datatype http = PostRaised | Response int "string option"

text \<open>
  \<^verbatim>\<open>expand_query_with_gemma\<close>, lines 105 to 136. The two \<^verbatim>\<open>re.sub\<close> calls of lines 127
  and 128 are the parameters \<open>sub_markdown\<close> and \<open>sub_quotes\<close>.
\<close>

definition expand_query_with_gemma_try ::
  "(string \<Rightarrow> http) \<Rightarrow> (string \<Rightarrow> string) \<Rightarrow> (string \<Rightarrow> string) \<Rightarrow> string \<Rightarrow> exn + string" where
  "expand_query_with_gemma_try post sub_markdown sub_quotes query =
     (case post query of
        PostRaised \<Rightarrow> Inl ProviderError
      | Response status_code body \<Rightarrow>
          if status_code = 200 then
            (case body of
               None \<Rightarrow> Inl KeyError
             | Some response \<Rightarrow>
                 (let expanded = strip response;
                      expanded = sub_markdown expanded;
                      expanded = sub_quotes expanded;
                      expanded = strip (first_line expanded)
                  in Inr (if length expanded > length query \<and> length expanded < 100
                          then expanded else query)))
          else Inr query)"

definition expand_query_with_gemma ::
  "(string \<Rightarrow> http) \<Rightarrow> (string \<Rightarrow> string) \<Rightarrow> (string \<Rightarrow> string) \<Rightarrow> string \<Rightarrow> string" where
  "expand_query_with_gemma post sub_markdown sub_quotes query =
     (case expand_query_with_gemma_try post sub_markdown sub_quotes query of
        Inl ex \<Rightarrow> query | Inr r \<Rightarrow> r)"

subsection \<open>\<^verbatim>\<open>arxiv-search-engine/src/search_engine.py\<close>: class \<^verbatim>\<open>SearchEngine\<close>\<close>

text \<open>\<^verbatim>\<open>SearchEngine.get_embedding\<close>, lines 43 to 56: 768 zeros when the request fails.\<close>

definition se_get_embedding :: "(string \<Rightarrow> real list outcome) \<Rightarrow> string \<Rightarrow> real list" where
  "se_get_embedding post_embeddings text' =
     (case post_embeddings text' of
        Raised \<Rightarrow> replicate 768 0
      | Returned None \<Rightarrow> replicate 768 0
      | Returned (Some embedding) \<Rightarrow> embedding)"

text \<open>
  \<^verbatim>\<open>SearchEngine.expand_query\<close>, lines 58 to 87. \<open>findall\<close> is
  \<^verbatim>\<open>re.findall(r'\b\w+\b', _)\<close> and \<open>list_of_set\<close> is \<^verbatim>\<open>list(set(_))\<close>, whose order
  Python leaves open. The status code of the response is never read.
\<close>

definition se_expand_query_try ::
  "(string \<Rightarrow> http) \<Rightarrow> (string \<Rightarrow> string list) \<Rightarrow> (string list \<Rightarrow> string list) \<Rightarrow>
   string \<Rightarrow> exn + string" where
  "se_expand_query_try post findall list_of_set query =
     (case post query of
        PostRaised \<Rightarrow> Inl ProviderError
      | Response status_code body \<Rightarrow>
          (case body of
             None \<Rightarrow> Inl KeyError
           | Some response \<Rightarrow>
               (let expanded = strip response;
                    expanded_terms = findall (lower expanded);
                    original_terms = findall (lower query);
                    all_terms = list_of_set (original_terms @ expanded_terms)
                in Inr (join_spaces all_terms))))"

definition se_expand_query ::
  "(string \<Rightarrow> http) \<Rightarrow> (string \<Rightarrow> string list) \<Rightarrow> (string list \<Rightarrow> string list) \<Rightarrow>
   string \<Rightarrow> string" where
  "se_expand_query post findall list_of_set query =
     (case se_expand_query_try post findall list_of_set query of
        Inl ex \<Rightarrow> query | Inr r \<Rightarrow> r)"

text \<open>One entry of the list \<^verbatim>\<open>semantic_search\<close> returns.\<close>

record semantic_result =
  s_id :: string
  s_document :: string
  s_metadata :: metadata
  s_distance :: real
  s_semantic_score :: real

text \<open>
  \<^verbatim>\<open>SearchEngine.semantic_search\<close>, lines 89 to 112: an exception of
  \<^verbatim>\<open>collection.query\<close> is caught and gives the empty list.
\<close>

definition se_semantic_search ::
  "(string \<Rightarrow> real list outcome) \<Rightarrow> (real list \<Rightarrow> int \<Rightarrow> error + hit list) \<Rightarrow>
   string \<Rightarrow> int \<Rightarrow> semantic_result list" where
  "se_semantic_search post_embeddings query_collection query n_results =
     (let query_embedding = se_get_embedding post_embeddings query in
      case query_collection query_embedding n_results of
        Inl err \<Rightarrow> []
      | Inr hits \<Rightarrow>
          map (\<lambda>h. \<lparr>s_id = hit_id h, s_document = hit_document h,
                     s_metadata = hit_metadata h, s_distance = hit_distance h,
                     s_semantic_score = 1 - hit_distance h\<rparr>) hits)"

text \<open>One entry of the list \<^verbatim>\<open>lexical_search\<close> returns.\<close>

record lexical_result =
  l_id :: string
  l_document :: string
  l_metadata :: metadata
  l_bm25_score :: real
  l_lexical_score :: real

text \<open>
  A value of \<^verbatim>\<open>combined_results\<close> in \<^verbatim>\<open>SearchEngine.hybrid_search\<close>: the keys of the
  channel's entry (\<^verbatim>\<open>distance\<close> only from the semantic channel, \<^verbatim>\<open>bm25_score\<close> only
  from the lexical one) and both scores.
\<close>

record se_combined =
  a_id :: string
  a_document :: string
  a_metadata :: metadata
  a_distance :: "real option"
  a_bm25_score :: "real option"
  a_semantic_score :: real
  a_lexical_score :: real

record se_result = se_combined +
  a_hybrid_score :: real

text \<open>Lines 160 to 166.\<close>

definition se_add_semantic ::
  "semantic_result \<Rightarrow> (string \<times> se_combined) list \<Rightarrow> (string \<times> se_combined) list" where
  "se_add_semantic r combined_results =
     AList.update (s_id r)
       \<lparr>a_id = s_id r, a_document = s_document r, a_metadata = s_metadata r,
        a_distance = Some (s_distance r), a_bm25_score = None,
        a_semantic_score = s_semantic_score r, a_lexical_score = 0\<rparr>
       combined_results"

text \<open>Lines 169 to 178.\<close>

definition se_add_lexical ::
  "lexical_result \<Rightarrow> (string \<times> se_combined) list \<Rightarrow> (string \<times> se_combined) list" where
  "se_add_lexical r combined_results =
     (case map_of combined_results (l_id r) of
        Some entry \<Rightarrow>
          AList.update (l_id r) (entry\<lparr>a_lexical_score := l_lexical_score r\<rparr>) combined_results
      | None \<Rightarrow>
          AList.update (l_id r)
            \<lparr>a_id = l_id r, a_document = l_document r, a_metadata = l_metadata r,
             a_distance = None, a_bm25_score = Some (l_bm25_score r),
             a_semantic_score = 0, a_lexical_score = l_lexical_score r\<rparr>
            combined_results)"

definition se_combine ::
  "semantic_result list \<Rightarrow> lexical_result list \<Rightarrow> (string \<times> se_combined) list" where
  "se_combine semantic_results lexical_results =
     fold se_add_lexical lexical_results (fold se_add_semantic semantic_results [])"

text \<open>
  Lines 184 to 190. The two weights are read from \<^verbatim>\<open>config.yaml\<close>, which is not part of
  the sources: they are parameters.
\<close>

definition se_lex_score :: "real \<Rightarrow> real" where
  "se_lex_score lexical_score = (if lexical_score > 0 then min (lexical_score / 10) 1 else 0)"

definition se_score :: "real \<Rightarrow> real \<Rightarrow> se_combined \<Rightarrow> se_result" where
  "se_score semantic_weight lexical_weight r =
     (let sem_score = a_semantic_score r;
          lex_score = se_lex_score (a_lexical_score r)
      in se_combined.extend r
           (se_result.fields (semantic_weight * sem_score + lexical_weight * lex_score)))"

text \<open>Lines 157 to 197: the sorted list before it is cut to \<^verbatim>\<open>n_results\<close>.\<close>

definition se_fuse ::
  "real \<Rightarrow> real \<Rightarrow> semantic_result list \<Rightarrow> lexical_result list \<Rightarrow> se_result list" where
  "se_fuse semantic_weight lexical_weight semantic_results lexical_results =
     sort_key (\<lambda>x. - a_hybrid_score x)
       (map (\<lambda>(doc_id, r). se_score semantic_weight lexical_weight r)
          (se_combine semantic_results lexical_results))"

subsection \<open>Predicates of the statements\<close>

text \<open>Both normalized scores of an entry of \<^verbatim>\<open>combined_results\<close> lie between 0 and 1.\<close>

definition unit_entry :: "combined \<Rightarrow> bool" where
  "unit_entry e \<longleftrightarrow>
     0 \<le> c_semantic_score e \<and> c_semantic_score e \<le> 1 \<and>
     0 \<le> c_bm25_score e \<and> c_bm25_score e \<le> 1"

text \<open>
  An engine whose providers all fail and whose corpus is empty: the starting point of the
  concrete engines below, which replace single fields.
\<close>

definition quiet_engine :: engine where
  "quiet_engine = \<lparr>generate = (\<lambda>q. Raised), embeddings = (\<lambda>t. Raised),
     collection_query = (\<lambda>emb n w. Inr []), all_ids = [], all_metadatas = [],
     documents_corpus = [], get_scores = (\<lambda>ts. []), argsort = (\<lambda>s. [])\<rparr>"

text \<open>
  The order in which keys enter a Python dictionary: every key once, at the place of its
  first occurrence.
\<close>

definition first_occurrences :: "'a list \<Rightarrow> 'a list" where
  "first_occurrences xs = rev (remdups (rev xs))"

text \<open>
  The document ids of the BM25 hits that pass the test \<^verbatim>\<open>idx < len(all_docs['ids'])\<close>, in
  the order of the hits.
\<close>

definition lexical_ids :: "string list \<Rightarrow> bm25_result list \<Rightarrow> string list" where
  "lexical_ids ids bs = map (\<lambda>b. ids ! b_index b) (filter (\<lambda>b. b_index b < length ids) bs)"

text \<open>
  In the list of ids \<open>ks\<close>, \<open>y\<close> occurs after the first occurrence of \<open>x\<close>.
\<close>

definition ranked_before :: "'a \<Rightarrow> 'a \<Rightarrow> 'a list \<Rightarrow> bool" where
  "ranked_before x y ks \<longleftrightarrow> y \<in> set (tl (dropWhile (\<lambda>k. k \<noteq> x) ks))"

text \<open>\<^verbatim>\<open>v in s\<close> on strings: \<open>v\<close> occurs in \<open>s\<close> as a contiguous run.\<close>

fun contains :: "string \<Rightarrow> string \<Rightarrow> bool" where
  "contains v [] = (v = [])"
| "contains v (c # cs) = (prefix v (c # cs) \<or> contains v cs)"

text \<open>
  What the \<^verbatim>\<open>where\<close> clause built from \<^verbatim>\<open>filters\<close> asks of a document: for every pair
  \<^verbatim>\<open>key: {"$contains": v}\<close>, the metadata has the key and its text contains \<open>v\<close>.
\<close>

definition satisfies :: "(string \<times> string option) list \<Rightarrow> metadata \<Rightarrow> bool" where
  "satisfies filters m =
     list_all (\<lambda>(key, v). case map_of m key of None \<Rightarrow> False | Some s \<Rightarrow> contains v s)
       (where_clause filters)"

text \<open>
  A collection of two papers, one in \<^verbatim>\<open>cs.CV\<close> and one in \<^verbatim>\<open>math.CO\<close>. The vector
  store honours the \<^verbatim>\<open>where\<close> clause: asked for \<^verbatim>\<open>cs.CV\<close> it returns the first paper
  only. BM25 scores the second paper alone for the token \<^verbatim>\<open>pruning\<close>.
\<close>

definition filtered_engine :: engine where
  "filtered_engine = quiet_engine\<lparr>
     embeddings := (\<lambda>t. Returned (Some [1])),
     collection_query := (\<lambda>emb n w.
       if w = Some [(''categories'', ''cs.CV'')]
       then Inr [\<lparr>hit_id = ''p1'', hit_document = ''vision transformers'', hit_distance = 1/5,
                  hit_metadata = [(''categories'', ''cs.CV'')]\<rparr>]
       else Inr []),
     all_ids := [''p1'', ''p2''],
     all_metadatas := [[(''categories'', ''cs.CV'')], [(''categories'', ''math.CO'')]],
     documents_corpus := [''vision transformers'', ''graph pruning''],
     get_scores := (\<lambda>tokens. if tokens = [''pruning''] then [0, 2] else [0, 0]),
     argsort := (\<lambda>s. [0, 1])\<rparr>"

text \<open>
  The entry that lines 117 to 126 of \<^verbatim>\<open>hybrid_search\<close> create for a BM25 hit whose id is
  not yet a key of \<^verbatim>\<open>combined_results\<close>.
\<close>

definition bm25_only_entry ::
  "string list \<Rightarrow> metadata list \<Rightarrow> real list \<Rightarrow> bm25_result \<Rightarrow> string \<times> combined" where
  "bm25_only_entry ids metas raws b =
     (ids ! b_index b,
      \<lparr>c_semantic_score = 0,
       c_bm25_score = normalized_score raws (b_bm25_score b),
       c_result = \<lparr>id' = ids ! b_index b, document = b_document b, distance = None,
         score = 0,
         metadata = (if b_index b < length metas then metas ! b_index b else [])\<rparr>\<rparr>)"

text \<open>
  An engine whose embedding provider fails, over three papers; BM25 scores the first and
  the third for the query, and \<^verbatim>\<open>numpy.argsort\<close> orders the three scores.
\<close>

definition lexical_engine :: engine where
  "lexical_engine = quiet_engine\<lparr>
     all_ids := [''p1'', ''p2'', ''p3''],
     all_metadatas := [[], [], []],
     documents_corpus := [''graph pruning'', ''vision transformers'', ''network pruning survey''],
     get_scores := (\<lambda>tokens. [1, 0, 3]),
     argsort := (\<lambda>s. if s = [1, 0, 3] then [1, 0, 2] else [])\<rparr>"

section \<open>Properties of the ranking code\<close>

subsection \<open>Min-max normalization\<close>

lemma score_range_pos: "raws \<noteq> [] \<Longrightarrow> 0 < score_range raws"
proof (cases "Max (set raws) = Min (set raws)")
  case True then show ?thesis by (simp add: score_range_def)
next
  case False
  assume "raws \<noteq> []"
  then have ne: "set raws \<noteq> {}" by auto
  have "Min (set raws) \<le> Max (set raws)" using ne by (simp add: Min_le_iff)
  with False show ?thesis by (simp add: score_range_def Let_def)
qed

lemma normalized_score_bounds:
  assumes "raw \<in> set raws"
  shows "0 \<le> normalized_score raws raw \<and> normalized_score raws raw \<le> 1"
proof -
  have lo: "Min (set raws) \<le> raw" using assms by simp
  have hi: "raw \<le> Max (set raws)" using assms by simp
  show ?thesis
  proof (cases "Max (set raws) = Min (set raws)")
    case True
    with lo hi have "raw = Min (set raws)" by simp
    then show ?thesis using True by (simp add: normalized_score_def score_range_def)
  next
    case False
    with lo hi have pos: "0 < Max (set raws) - Min (set raws)" by simp
    show ?thesis using False pos lo hi
      by (simp add: normalized_score_def score_range_def Let_def divide_le_eq)
  qed
qed

lemma normalized_score_constant:
  assumes "raw \<in> set raws" "\<forall>x\<in>set raws. x = c"
  shows "normalized_score raws raw = 0"
proof -
  have rc: "raw = c" using assms by auto
  have "set raws = {raw}"
  proof
    show "set raws \<subseteq> {raw}" using assms(2) rc by blast
    show "{raw} \<subseteq> set raws" using assms(1) by simp
  qed
  then show ?thesis by (simp add: normalized_score_def)
qed

lemma normalized_score_mono:
  "raws \<noteq> [] \<Longrightarrow> x \<le> y \<Longrightarrow> normalized_score raws x \<le> normalized_score raws y"
  using score_range_pos[of raws] by (simp add: normalized_score_def divide_right_mono)

lemma normalized_score_strict_mono:
  "raws \<noteq> [] \<Longrightarrow> x < y \<Longrightarrow> normalized_score raws x < normalized_score raws y"
  using score_range_pos[of raws] by (simp add: normalized_score_def divide_strict_right_mono)

lemma list_all_update:
  "list_all P al \<Longrightarrow> P (k, v) \<Longrightarrow> list_all P (AList.update k v al)"
  by (induction al) auto

lemma fold_list_all:
  assumes "list_all P acc" "\<And>x a. x \<in> set xs \<Longrightarrow> list_all P a \<Longrightarrow> list_all P (f x a)"
  shows "list_all P (fold f xs acc)"
  using assms by (induction xs arbitrary: acc) auto

lemma add_vector_results_all:
  assumes "list_all P acc"
    and "\<And>r. r \<in> set vs \<Longrightarrow>
           P (id' r, \<lparr>c_semantic_score = normalized_score (map score vs) (score r),
                      c_bm25_score = 0, c_result = r\<rparr>)"
  shows "list_all P (add_vector_results vs acc)"
  unfolding add_vector_results_def using assms
  by (auto intro!: fold_list_all list_all_update)

lemma add_bm25_result_all:
  assumes "list_all P acc"
    and "\<And>entry. b_index b < length ids \<Longrightarrow> (ids ! b_index b, entry) \<in> set acc \<Longrightarrow>
           P (ids ! b_index b, entry\<lparr>c_bm25_score := normalized_score raws (b_bm25_score b)\<rparr>)"
    and "b_index b < length ids \<Longrightarrow> P (ids ! b_index b,
            \<lparr>c_semantic_score = 0, c_bm25_score = normalized_score raws (b_bm25_score b),
             c_result = \<lparr>id' = ids ! b_index b, document = b_document b, distance = None,
               score = 0,
               metadata = (if b_index b < length metas then metas ! b_index b
                           else [])\<rparr>\<rparr>)"
  shows "list_all P (add_bm25_result ids metas raws b acc)"
  unfolding add_bm25_result_def Let_def using assms
  by (auto split: option.splits intro!: list_all_update dest!: map_of_SomeD)

lemma add_bm25_results_all:
  assumes "list_all P acc"
    and "\<And>b entry. b \<in> set bs \<Longrightarrow> b_index b < length ids \<Longrightarrow>
           P (ids ! b_index b, entry) \<Longrightarrow>
           P (ids ! b_index b,
              entry\<lparr>c_bm25_score := normalized_score (map b_bm25_score bs) (b_bm25_score b)\<rparr>)"
    and "\<And>b. b \<in> set bs \<Longrightarrow> b_index b < length ids \<Longrightarrow> P (ids ! b_index b,
            \<lparr>c_semantic_score = 0,
             c_bm25_score = normalized_score (map b_bm25_score bs) (b_bm25_score b),
             c_result = \<lparr>id' = ids ! b_index b, document = b_document b, distance = None,
               score = 0,
               metadata = (if b_index b < length metas then metas ! b_index b
                           else [])\<rparr>\<rparr>)"
  shows "list_all P (add_bm25_results ids metas bs acc)"
  unfolding add_bm25_results_def using assms(1)
proof (simp, intro impI fold_list_all)
  show "list_all P acc" by fact
next
  fix x a assume x: "x \<in> set bs" and a: "list_all P a"
  show "list_all P (add_bm25_result ids metas (map b_bm25_score bs) x a)"
  proof (rule add_bm25_result_all[OF a])
    fix entry assume r: "b_index x < length ids" and "(ids ! b_index x, entry) \<in> set a"
    then have "P (ids ! b_index x, entry)" using a by (auto simp: list_all_iff)
    then show "P (ids ! b_index x,
        entry\<lparr>c_bm25_score := normalized_score (map b_bm25_score bs) (b_bm25_score x)\<rparr>)"
      using assms(2) x r by blast
  next
    assume "b_index x < length ids"
    then show "P (ids ! b_index x,
            \<lparr>c_semantic_score = 0,
             c_bm25_score = normalized_score (map b_bm25_score bs) (b_bm25_score x),
             c_result = \<lparr>id' = ids ! b_index x, document = b_document x, distance = None,
               score = 0,
               metadata = (if b_index x < length metas then metas ! b_index x
                           else [])\<rparr>\<rparr>)"
      using assms(3) x by blast
  qed
qed

lemma combine_unit:
  "list_all (\<lambda>(k, e). unit_entry e) (combine vs bs ids metas)"
  unfolding combine_def
proof (rule add_bm25_results_all)
  show "list_all (\<lambda>(k, e). unit_entry e) (add_vector_results vs [])"
    by (rule add_vector_results_all)
       (use normalized_score_bounds in \<open>auto simp: unit_entry_def\<close>)
qed (use normalized_score_bounds in \<open>auto simp: unit_entry_def\<close>)

lemma fuse_set:
  "set (fuse a vs bs ids metas) = (\<lambda>(k, e). final_of a e) ` set (combine vs bs ids metas)"
  by (simp add: fuse_def sort_by_hybrid_score_def)

lemma final_of_simps:
  "hybrid_score (final_of a e) = a * c_semantic_score e + (1 - a) * c_bm25_score e"
  "semantic_score (final_of a e) = c_semantic_score e"
  "bm25_score (final_of a e) = c_bm25_score e"
  "id' (final_of a e) = id' (c_result e)"
  "metadata (final_of a e) = metadata (c_result e)"
  by (simp_all add: final_of_def result.defs final_result.defs)

lemma fuse_entry:
  assumes "r \<in> set (fuse a vs bs ids metas)"
  obtains k e where "(k, e) \<in> set (combine vs bs ids metas)" "r = final_of a e"
  using assms by (auto simp: fuse_set)

lemma fused_formula:
  assumes "r \<in> set (fuse a vs bs ids metas)"
  shows "hybrid_score r = a * semantic_score r + (1 - a) * bm25_score r \<and>
         0 \<le> semantic_score r \<and> semantic_score r \<le> 1 \<and>
         0 \<le> bm25_score r \<and> bm25_score r \<le> 1"
proof -
  from assms obtain k e where ke: "(k, e) \<in> set (combine vs bs ids metas)" and r: "r = final_of a e"
    by (rule fuse_entry)
  have "unit_entry e" using combine_unit[of vs bs ids metas] ke by (auto simp: list_all_iff)
  then show ?thesis by (simp add: r final_of_simps unit_entry_def)
qed

lemma convex_unit:
  fixes a s b :: real
  assumes "0 \<le> a" "a \<le> 1" "0 \<le> s" "s \<le> 1" "0 \<le> b" "b \<le> 1"
  shows "0 \<le> a * s + (1 - a) * b \<and> a * s + (1 - a) * b \<le> 1"
proof
  show "0 \<le> a * s + (1 - a) * b" using assms by simp
  have "a * s \<le> a * 1" using assms by (intro mult_left_mono) auto
  moreover have "(1 - a) * b \<le> (1 - a) * 1" using assms by (intro mult_left_mono) auto
  ultimately show "a * s + (1 - a) * b \<le> 1" by simp
qed

lemma combine_semantic_zero:
  assumes "\<forall>v\<in>set vs. score v = c"
  shows "list_all (\<lambda>(k, e). c_semantic_score e = 0) (combine vs bs ids metas)"
  unfolding combine_def
proof (rule add_bm25_results_all)
  show "list_all (\<lambda>(k, e). c_semantic_score e = 0) (add_vector_results vs [])"
  proof (rule add_vector_results_all)
    fix r assume "r \<in> set vs"
    then have "normalized_score (map score vs) (score r) = 0"
      using assms by (intro normalized_score_constant[where c = c]) auto
    then show "case (id' r, \<lparr>c_semantic_score = normalized_score (map score vs) (score r),
                      c_bm25_score = 0, c_result = r\<rparr>) of (k, e) \<Rightarrow> c_semantic_score e = 0"
      by simp
  qed simp
qed auto

lemma combine_bm25_zero:
  assumes "\<forall>b\<in>set bs. b_bm25_score b = c"
  shows "list_all (\<lambda>(k, e). c_bm25_score e = 0) (combine vs bs ids metas)"
  unfolding combine_def
proof (rule add_bm25_results_all)
  show "list_all (\<lambda>(k, e). c_bm25_score e = 0) (add_vector_results vs [])"
    by (rule add_vector_results_all) auto
next
  fix b and entry :: combined assume "b \<in> set bs"
  then have "normalized_score (map b_bm25_score bs) (b_bm25_score b) = 0"
    using assms by (intro normalized_score_constant[where c = c]) auto
  then show "case (ids ! b_index b,
              entry\<lparr>c_bm25_score := normalized_score (map b_bm25_score bs) (b_bm25_score b)\<rparr>)
        of (k, e) \<Rightarrow> c_bm25_score e = 0" by simp
next
  fix b assume "b \<in> set bs"
  then have "normalized_score (map b_bm25_score bs) (b_bm25_score b) = 0"
    using assms by (intro normalized_score_constant[where c = c]) auto
  then show "case (ids ! b_index b,
            \<lparr>c_semantic_score = 0,
             c_bm25_score = normalized_score (map b_bm25_score bs) (b_bm25_score b),
             c_result = \<lparr>id' = ids ! b_index b, document = b_document b, distance = None,
               score = 0,
               metadata = (if b_index b < length metas then metas ! b_index b
                           else [])\<rparr>\<rparr>) of (k, e) \<Rightarrow> c_bm25_score e = 0" by simp
qed

lemma single_is_constant: "length xs = 1 \<Longrightarrow> \<exists>c. \<forall>x\<in>set xs. f x = c"
  by (cases xs) auto

subsection \<open>Evaluation of the fusion on concrete inputs\<close>

lemmas fuse_eval = fuse_def combine_def add_vector_results_def add_bm25_results_def
  add_bm25_result_def normalized_score_def score_range_def final_of_def
  sort_by_hybrid_score_def result.defs final_result.defs Let_def

subsection \<open>Degenerate channels\<close>

text \<open>
  Claim C3, as the specification states it: a channel with exactly one candidate, or with
  candidates whose raw scores are all equal, gives every member the normalized score 1.

  The code does not: the range is replaced by 1 when maximum and minimum coincide, and the
  numerator \<^verbatim>\<open>raw - min\<close> is then 0. A single semantic hit with raw score \<open>4/5\<close> gets the
  normalized score 0, not 1.
\<close>

theorem single_candidate_counterexample:
  "map semantic_score
     (fuse (1/2) [\<lparr>id' = ''a'', document = ''A'', distance = Some (1/5), score = 4/5,
                    metadata = []\<rparr>] [] [] []) = [0]
   \<and> map semantic_score
     (fuse (1/2) [\<lparr>id' = ''a'', document = ''A'', distance = Some (1/5), score = 4/5,
                    metadata = []\<rparr>] [] [] []) \<noteq> [1]"
  by (simp add: fuse_eval)

text \<open>
  Claim C3, amended: the divisor of the normalization is never 0, and in a channel with
  exactly one candidate, or with candidates whose raw scores are all equal, the normalized
  score of every member is 0. Every fused result then carries 0 for that channel.
\<close>

theorem degenerate_channel_normalizes_to_zero:
  "score_range raws \<noteq> 0 \<and>
   (length raws = 1 \<or> (\<exists>c. \<forall>x\<in>set raws. x = c) \<longrightarrow>
      (\<forall>x\<in>set raws. normalized_score raws x = 0)) \<and>
   (length vs = 1 \<or> (\<exists>c. \<forall>v\<in>set vs. score v = c) \<longrightarrow>
      (\<forall>r\<in>set (fuse a vs bs ids metas). semantic_score r = 0)) \<and>
   (length bs = 1 \<or> (\<exists>c. \<forall>b\<in>set bs. b_bm25_score b = c) \<longrightarrow>
      (\<forall>r\<in>set (fuse a vs bs ids metas). bm25_score r = 0))"
proof (intro conjI impI)
  show "score_range raws \<noteq> 0" by (simp add: score_range_def Let_def)
next
  assume "length raws = 1 \<or> (\<exists>c. \<forall>x\<in>set raws. x = c)"
  then obtain d where d: "\<forall>x\<in>set raws. x = d"
    using single_is_constant[of raws "\<lambda>x. x"] by auto
  show "\<forall>x\<in>set raws. normalized_score raws x = 0"
    using normalized_score_constant[OF _ d] by blast
next
  assume "length vs = 1 \<or> (\<exists>c. \<forall>v\<in>set vs. score v = c)"
  then obtain d where d: "\<forall>v\<in>set vs. score v = d"
    using single_is_constant[of vs score] by auto
  show "\<forall>r\<in>set (fuse a vs bs ids metas). semantic_score r = 0"
  proof
    fix r assume "r \<in> set (fuse a vs bs ids metas)"
    then obtain k e where ke: "(k, e) \<in> set (combine vs bs ids metas)" and r: "r = final_of a e"
      by (rule fuse_entry)
    have "c_semantic_score e = 0"
      using combine_semantic_zero[OF d, of bs ids metas] ke by (auto simp: list_all_iff)
    then show "semantic_score r = 0" by (simp add: r final_of_simps)
  qed
next
  assume "length bs = 1 \<or> (\<exists>c. \<forall>b\<in>set bs. b_bm25_score b = c)"
  then obtain d where d: "\<forall>b\<in>set bs. b_bm25_score b = d"
    using single_is_constant[of bs b_bm25_score] by auto
  show "\<forall>r\<in>set (fuse a vs bs ids metas). bm25_score r = 0"
  proof
    fix r assume "r \<in> set (fuse a vs bs ids metas)"
    then obtain k e where ke: "(k, e) \<in> set (combine vs bs ids metas)" and r: "r = final_of a e"
      by (rule fuse_entry)
    have "c_bm25_score e = 0"
      using combine_bm25_zero[OF d, of vs ids metas] ke by (auto simp: list_all_iff)
    then show "bm25_score r = 0" by (simp add: r final_of_simps)
  qed
qed

theorem degenerate_channel_normalizes_to_zero_witness:
  "length [4/5::real] = 1 \<and> normalized_score [4/5] (4/5) = 0 \<and>
   (\<exists>c. \<forall>v\<in>set
        [\<lparr>id' = ''a'', document = ''A'', distance = Some (1/2), score = 1/2, metadata = []\<rparr>,
         \<lparr>id' = ''b'', document = ''B'', distance = Some (1/2), score = 1/2, metadata = []\<rparr>].
      score v = c) \<and>
   length [\<lparr>b_index = 0, b_bm25_score = 7, b_document = ''C''\<rparr>] = 1 \<and>
   map semantic_score
     (fuse (3/5)
        [\<lparr>id' = ''a'', document = ''A'', distance = Some (1/2), score = 1/2, metadata = []\<rparr>,
         \<lparr>id' = ''b'', document = ''B'', distance = Some (1/2), score = 1/2, metadata = []\<rparr>]
        [\<lparr>b_index = 0, b_bm25_score = 7, b_document = ''C''\<rparr>] [''c''] [[]]) = [0, 0, 0] \<and>
   map bm25_score
     (fuse (3/5)
        [\<lparr>id' = ''a'', document = ''A'', distance = Some (1/2), score = 1/2, metadata = []\<rparr>,
         \<lparr>id' = ''b'', document = ''B'', distance = Some (1/2), score = 1/2, metadata = []\<rparr>]
        [\<lparr>b_index = 0, b_bm25_score = 7, b_document = ''C''\<rparr>] [''c''] [[]]) = [0, 0, 0]"
proof -
  let ?vs = "[\<lparr>id' = ''a'', document = ''A'', distance = Some (1/2), score = 1/2, metadata = []\<rparr>,
         \<lparr>id' = ''b'', document = ''B'', distance = Some (1/2), score = 1/2, metadata = []\<rparr>]"
  let ?bs = "[\<lparr>b_index = 0, b_bm25_score = 7, b_document = ''C''\<rparr>]"
  have equal_scores: "\<exists>c. \<forall>v\<in>set ?vs. score v = c"
    by (rule exI[of _ "1/2"]) simp
  show ?thesis
    using equal_scores
      degenerate_channel_normalizes_to_zero[of "[4/5]" ?vs "3/5" ?bs "[''c'']" "[[]]"]
    by (simp add: fuse_eval)
qed

subsection \<open>Query expansion\<close>

text \<open>
  Claim C5, as the specification states it: for every query, any error, timeout or
  malformed response of the text-generation provider makes the expansion return the
  original query unchanged; no error reaches the caller.

  \<^verbatim>\<open>SearchEngine.expand_query\<close> of \<^verbatim>\<open>arxiv-search-engine\<close> never reads the status code of
  the reply (lines 68 to 83). An error reply with the status 500 whose body carries a
  \<^verbatim>\<open>'response'\<close> is expanded like a success: the query \<^verbatim>\<open>graph pruning\<close> comes back as
  \<^verbatim>\<open>graph pruning x y\<close>. Here \<^verbatim>\<open>re.findall\<close> is the split at white space, which finds the
  same words in these texts, and \<^verbatim>\<open>list(set(_))\<close> keeps the order of the words.
\<close>

theorem error_status_expanded_counterexample:
  "se_expand_query (\<lambda>q. Response 500 (Some ''x y'')) split remdups ''graph pruning''
     = ''graph pruning x y'' \<and>
   se_expand_query (\<lambda>q. Response 500 (Some ''x y'')) split remdups ''graph pruning''
     \<noteq> ''graph pruning''"
  by (simp add: se_expand_query_def se_expand_query_try_def split_def lower_def lower_char_def
        strip_def isspace_def Let_def)

text \<open>
  Claim C5, amended: for every query, every failure that the expansion code observes makes
  it return the original query unchanged, and no error reaches the caller. In
  \<^verbatim>\<open>final_code\<close> that is an exception of the Ollama client or a reply without
  \<^verbatim>\<open>'response'\<close>; in \<^verbatim>\<open>expand_query_with_gemma\<close> an exception of the request (the timeout
  of 30 seconds among them), a status code other than 200, or a body without a usable
  \<^verbatim>\<open>'response'\<close>; in \<^verbatim>\<open>SearchEngine.expand_query\<close> an exception of the request or a body
  without a usable \<^verbatim>\<open>'response'\<close>. \<^verbatim>\<open>SearchEngine.expand_query\<close> does not read the status
  code: a reply of any status whose body carries a \<^verbatim>\<open>'response'\<close> is expanded, into the
  words of the query and of the response joined by spaces.

  All three expansions are total functions to strings: the exception of the \<^verbatim>\<open>try\<close> body
  is a value that the handler maps to the query.
\<close>

theorem expansion_fails_open:
  "(generate e q = Raised \<or> generate e q = Returned None \<longrightarrow> expand_query e q = q) \<and>
   (post q = PostRaised \<or> (\<exists>b. post q = Response status b \<and> (status \<noteq> 200 \<or> b = None))
      \<longrightarrow> expand_query_with_gemma post sub_markdown sub_quotes q = q) \<and>
   (post' q = PostRaised \<or> post' q = Response status' None
      \<longrightarrow> se_expand_query post' findall list_of_set q = q) \<and>
   (post' q = Response status' (Some response)
      \<longrightarrow> se_expand_query post' findall list_of_set q
            = join_spaces (list_of_set (findall (lower q) @ findall (lower (strip response)))))"
proof (intro conjI impI)
  assume "generate e q = Raised \<or> generate e q = Returned None"
  then show "expand_query e q = q"
    by (auto simp: expand_query_def expand_query_try_def)
next
  assume "post q = PostRaised \<or> (\<exists>b. post q = Response status b \<and> (status \<noteq> 200 \<or> b = None))"
  then show "expand_query_with_gemma post sub_markdown sub_quotes q = q"
    by (auto simp: expand_query_with_gemma_def expand_query_with_gemma_try_def)
next
  assume "post' q = PostRaised \<or> post' q = Response status' None"
  then show "se_expand_query post' findall list_of_set q = q"
    by (auto simp: se_expand_query_def se_expand_query_try_def)
next
  assume "post' q = Response status' (Some response)"
  then show "se_expand_query post' findall list_of_set q
            = join_spaces (list_of_set (findall (lower q) @ findall (lower (strip response))))"
    by (simp add: se_expand_query_def se_expand_query_try_def Let_def)
qed

theorem expansion_fails_open_witness:
  "generate (quiet_engine\<lparr>generate := (\<lambda>q. Raised)\<rparr>) ''graph pruning'' = Raised \<and>
   expand_query (quiet_engine\<lparr>generate := (\<lambda>q. Raised)\<rparr>) ''graph pruning'' = ''graph pruning'' \<and>
   (\<exists>b. (\<lambda>q. Response 500 (Some ''x'')) ''graph pruning'' = Response 500 b) \<and>
   expand_query_with_gemma (\<lambda>q. Response 500 (Some ''x'')) id id ''graph pruning''
     = ''graph pruning'' \<and>
   se_expand_query (\<lambda>q. Response 200 None) split remdups ''graph pruning'' = ''graph pruning'' \<and>
   se_expand_query (\<lambda>q. Response 200 (Some ''sparsity'')) split remdups ''graph pruning''
     = ''graph pruning sparsity''"
  using expansion_fails_open[of "quiet_engine\<lparr>generate := (\<lambda>q. Raised)\<rparr>" "''graph pruning''"
      "\<lambda>q. Response 500 (Some ''x'')" 500 id id "\<lambda>q. Response 200 None" 200 split remdups
      "''sparsity''"]
    expansion_fails_open[of "quiet_engine\<lparr>generate := (\<lambda>q. Raised)\<rparr>" "''graph pruning''"
      "\<lambda>q. Response 500 (Some ''x'')" 500 id id "\<lambda>q. Response 200 (Some ''sparsity'')" 200
      split remdups "''sparsity''"]
  by (simp add: quiet_engine_def split_def lower_def lower_char_def strip_def isspace_def)

text \<open>
  Claim C6, as the specification states it: the expansion is returned only if it is strictly
  longer than the query and under an upper length bound; otherwise the query is returned.

  \<^verbatim>\<open>HybridSearchEngine.expand_query\<close> of \<^verbatim>\<open>final_code\<close> has no length test
  (\<^verbatim>\<open>return expanded if expanded else query\<close>): the reply \<^verbatim>\<open>nn\<close> to the query
  \<^verbatim>\<open>neural network pruning\<close> is returned, although it is shorter than the query.
\<close>

theorem short_expansion_counterexample:
  "expand_query (quiet_engine\<lparr>generate := (\<lambda>q. Returned (Some ''nn''))\<rparr>) ''neural network pruning''
     = ''nn'' \<and>
   \<not> length ''nn'' > length ''neural network pruning''"
  by (simp add: expand_query_def expand_query_try_def quiet_engine_def strip_def
        replace_newlines_def isspace_def newline_def)

text \<open>
  Claim C6, amended: \<^verbatim>\<open>expand_query_with_gemma\<close> returns the cleaned expansion exactly when
  it is strictly longer than the query and shorter than 100 characters, and the query in
  every other case; \<^verbatim>\<open>HybridSearchEngine.expand_query\<close> returns the cleaned expansion
  whenever it is not empty, whatever its length, and the query otherwise.
\<close>

theorem expansion_acceptance:
  "(expand_query_with_gemma post sub_markdown sub_quotes q \<noteq> q \<longrightarrow>
      length q < length (expand_query_with_gemma post sub_markdown sub_quotes q) \<and>
      length (expand_query_with_gemma post sub_markdown sub_quotes q) < 100) \<and>
   (post q = Response 200 (Some response) \<longrightarrow>
      expand_query_with_gemma post sub_markdown sub_quotes q =
        (let expanded = strip (first_line (sub_quotes (sub_markdown (strip response))))
         in if length q < length expanded \<and> length expanded < 100 then expanded else q)) \<and>
   (generate e q = Returned (Some response') \<longrightarrow>
      expand_query e q =
        (let expanded = replace_newlines (strip response')
         in if expanded \<noteq> [] then expanded else q))"
proof -
  have rejected: "expand_query_with_gemma post sub_markdown sub_quotes q \<noteq> q \<longrightarrow>
      length q < length (expand_query_with_gemma post sub_markdown sub_quotes q) \<and>
      length (expand_query_with_gemma post sub_markdown sub_quotes q) < 100"
    by (auto simp: expand_query_with_gemma_def expand_query_with_gemma_try_def Let_def
          split: http.splits option.splits if_splits)
  have gemma: "post q = Response 200 (Some response) \<longrightarrow>
      expand_query_with_gemma post sub_markdown sub_quotes q =
        (let expanded = strip (first_line (sub_quotes (sub_markdown (strip response))))
         in if length q < length expanded \<and> length expanded < 100 then expanded else q)"
    by (simp add: expand_query_with_gemma_def expand_query_with_gemma_try_def Let_def)
  have final: "generate e q = Returned (Some response') \<longrightarrow>
      expand_query e q =
        (let expanded = replace_newlines (strip response')
         in if expanded \<noteq> [] then expanded else q)"
    by (simp add: expand_query_def expand_query_try_def Let_def)
  from rejected gemma final show ?thesis by (intro conjI)
qed

theorem expansion_acceptance_witness:
  "expand_query_with_gemma (\<lambda>q. Response 200 (Some '' graph pruning sparsity '')) id id ''pruning''
     = ''graph pruning sparsity'' \<and>
   expand_query_with_gemma (\<lambda>q. Response 200 (Some ''nn'')) id id ''pruning'' = ''pruning'' \<and>
   expand_query (quiet_engine\<lparr>generate := (\<lambda>q. Returned (Some ''nn''))\<rparr>) ''pruning'' = ''nn'' \<and>
   expand_query (quiet_engine\<lparr>generate := (\<lambda>q. Returned (Some ''  ''))\<rparr>) ''pruning'' = ''pruning''"
  using expansion_acceptance[of "\<lambda>q. Response 200 (Some '' graph pruning sparsity '')" id id
          "''pruning''" "'' graph pruning sparsity ''"
          "quiet_engine\<lparr>generate := (\<lambda>q. Returned (Some ''nn''))\<rparr>" "''nn''"]
        expansion_acceptance[of "\<lambda>q. Response 200 (Some ''nn'')" id id "''pruning''" "''nn''"
          "quiet_engine\<lparr>generate := (\<lambda>q. Returned (Some ''  ''))\<rparr>" "''  ''"]
  by (simp add: quiet_engine_def strip_def first_line_def replace_newlines_def isspace_def
        newline_def)

subsection \<open>The fusion of \<^verbatim>\<open>SearchEngine.hybrid_search\<close>\<close>

lemma se_lex_score_bounds: "0 \<le> se_lex_score x \<and> se_lex_score x \<le> 1"
  by (simp add: se_lex_score_def)

lemma se_score_simps:
  "a_hybrid_score (se_score ws wl r) = ws * a_semantic_score r + wl * se_lex_score (a_lexical_score r)"
  "a_semantic_score (se_score ws wl r) = a_semantic_score r"
  "a_lexical_score (se_score ws wl r) = a_lexical_score r"
  "a_id (se_score ws wl r) = a_id r"
  by (simp_all add: se_score_def se_combined.defs se_result.defs)

lemma se_fuse_set:
  "set (se_fuse ws wl ss ls) = (\<lambda>(k, r). se_score ws wl r) ` set (se_combine ss ls)"
  by (simp add: se_fuse_def)

lemma se_fuse_entry:
  assumes "x \<in> set (se_fuse ws wl ss ls)"
  obtains k r where "(k, r) \<in> set (se_combine ss ls)" "x = se_score ws wl r"
  using assms by (auto simp: se_fuse_set)

lemma se_combine_all:
  assumes sem: "\<And>r. r \<in> set ss \<Longrightarrow>
        P (s_id r, \<lparr>a_id = s_id r, a_document = s_document r, a_metadata = s_metadata r,
        a_distance = Some (s_distance r), a_bm25_score = None,
        a_semantic_score = s_semantic_score r, a_lexical_score = 0\<rparr>)"
    and upd: "\<And>r entry. r \<in> set ls \<Longrightarrow> P (l_id r, entry) \<Longrightarrow>
        P (l_id r, entry\<lparr>a_lexical_score := l_lexical_score r\<rparr>)"
    and new: "\<And>r. r \<in> set ls \<Longrightarrow>
        P (l_id r, \<lparr>a_id = l_id r, a_document = l_document r, a_metadata = l_metadata r,
             a_distance = None, a_bm25_score = Some (l_bm25_score r),
             a_semantic_score = 0, a_lexical_score = l_lexical_score r\<rparr>)"
  shows "list_all P (se_combine ss ls)"
  unfolding se_combine_def
proof (rule fold_list_all)
  show "list_all P (fold se_add_semantic ss [])"
    by (rule fold_list_all) (auto simp: se_add_semantic_def intro!: list_all_update sem)
next
  fix x a assume x: "x \<in> set ls" and a: "list_all P a"
  have old: "P (l_id x, entry)" if "map_of a (l_id x) = Some entry" for entry
    using a that by (auto simp: list_all_iff dest!: map_of_SomeD)
  show "list_all P (se_add_lexical x a)"
    unfolding se_add_lexical_def using a x old
    by (auto split: option.splits intro!: list_all_update upd new)
qed

lemma se_combine_semantic_unit:
  assumes "\<forall>s\<in>set ss. 0 \<le> s_semantic_score s \<and> s_semantic_score s \<le> 1"
  shows "list_all (\<lambda>(k, r). 0 \<le> a_semantic_score r \<and> a_semantic_score r \<le> 1) (se_combine ss ls)"
  by (rule se_combine_all) (use assms in auto)

lemma weighted_unit:
  fixes ws wl s l :: real
  assumes "0 \<le> ws" "0 \<le> wl" "ws + wl \<le> 1" "0 \<le> s" "s \<le> 1" "0 \<le> l" "l \<le> 1"
  shows "0 \<le> ws * s + wl * l \<and> ws * s + wl * l \<le> 1"
proof
  show "0 \<le> ws * s + wl * l" using assms by simp
  have "ws * s \<le> ws * 1" using assms by (intro mult_left_mono) auto
  moreover have "wl * l \<le> wl * 1" using assms by (intro mult_left_mono) auto
  ultimately show "ws * s + wl * l \<le> 1" using assms(3) by simp
qed

subsection \<open>The range of the fused score\<close>

text \<open>
  Claim C1, as the specification states it: for every weight \<open>\<alpha>\<close> in \<open>[0,1]\<close> and every pair
  of channel result lists, every fused result has a fused score
  \<open>\<alpha> \<sqdot> semantic + (1 - \<alpha>) \<sqdot> lexical\<close> in \<open>[0,1]\<close>.

  \<^verbatim>\<open>SearchEngine.hybrid_search\<close> of \<^verbatim>\<open>arxiv-search-engine\<close> (lines 184 to 190) does not
  normalize the semantic score \<^verbatim>\<open>1 - distance\<close>: a hit at distance \<open>3/2\<close> has the semantic
  score \<open>-1/2\<close>, and with the weights \<open>3/5\<close> and \<open>2/5\<close> the fused score \<open>-3/10\<close>.
\<close>

theorem unclamped_distance_counterexample:
  "map a_hybrid_score
     (se_fuse (3/5) (2/5)
        (se_semantic_search (\<lambda>t. Returned (Some [1]))
           (\<lambda>emb n. Inr [\<lparr>hit_id = ''a'', hit_document = ''A'', hit_distance = 3/2,
                            hit_metadata = []\<rparr>])
           ''pruning'' 20)
        []) = [- (3/10)]
   \<and> \<not> (0::real) \<le> - (3/10)"
  by (simp add: se_fuse_def se_combine_def se_add_semantic_def se_semantic_search_def
        se_score_def se_lex_score_def se_combined.defs se_result.defs Let_def)

text \<open>
  Claim C1, amended: in \<^verbatim>\<open>HybridSearchEngine.hybrid_search\<close> of \<^verbatim>\<open>final_code\<close>, for every
  weight \<open>\<alpha>\<close> in \<open>[0,1]\<close> and every pair of channel result lists, every fused result has
  \<^verbatim>\<open>hybrid_score\<close> \<open>= \<alpha> \<sqdot> semantic_score + (1 - \<alpha>) \<sqdot> bm25_score\<close> in \<open>[0,1]\<close>. In
  \<^verbatim>\<open>SearchEngine.hybrid_search\<close> of \<^verbatim>\<open>arxiv-search-engine\<close> the fused score is
  \<open>w\<^sub>s \<sqdot> (1 - distance) + w\<^sub>l \<sqdot> min (bm25 / 10) 1\<close> with two configured weights; it lies in
  \<open>[0,1]\<close> when the weights are not negative, their sum is at most 1 and every semantic
  score lies in \<open>[0,1]\<close>.
\<close>

theorem fused_score_range:
  "(0 \<le> a \<and> a \<le> 1 \<and> r \<in> set (fuse a vs bs ids metas) \<longrightarrow>
      hybrid_score r = a * semantic_score r + (1 - a) * bm25_score r \<and>
      0 \<le> hybrid_score r \<and> hybrid_score r \<le> 1) \<and>
   (x \<in> set (se_fuse ws wl ss ls) \<longrightarrow>
      a_hybrid_score x = ws * a_semantic_score x + wl * se_lex_score (a_lexical_score x)) \<and>
   (0 \<le> ws \<and> 0 \<le> wl \<and> ws + wl \<le> 1 \<and>
    (\<forall>s\<in>set ss. 0 \<le> s_semantic_score s \<and> s_semantic_score s \<le> 1) \<and>
    x \<in> set (se_fuse ws wl ss ls) \<longrightarrow>
      0 \<le> a_hybrid_score x \<and> a_hybrid_score x \<le> 1)"
proof -
  have final: "0 \<le> a \<and> a \<le> 1 \<and> r \<in> set (fuse a vs bs ids metas) \<longrightarrow>
      hybrid_score r = a * semantic_score r + (1 - a) * bm25_score r \<and>
      0 \<le> hybrid_score r \<and> hybrid_score r \<le> 1"
  proof
    assume h: "0 \<le> a \<and> a \<le> 1 \<and> r \<in> set (fuse a vs bs ids metas)"
    then have f: "hybrid_score r = a * semantic_score r + (1 - a) * bm25_score r \<and>
         0 \<le> semantic_score r \<and> semantic_score r \<le> 1 \<and>
         0 \<le> bm25_score r \<and> bm25_score r \<le> 1"
      using fused_formula by blast
    then show "hybrid_score r = a * semantic_score r + (1 - a) * bm25_score r \<and>
      0 \<le> hybrid_score r \<and> hybrid_score r \<le> 1"
      using convex_unit[of a "semantic_score r" "bm25_score r"] h by simp
  qed
  have formula: "x \<in> set (se_fuse ws wl ss ls) \<longrightarrow>
      a_hybrid_score x = ws * a_semantic_score x + wl * se_lex_score (a_lexical_score x)"
    by (auto elim!: se_fuse_entry simp: se_score_simps)
  have range: "0 \<le> ws \<and> 0 \<le> wl \<and> ws + wl \<le> 1 \<and>
    (\<forall>s\<in>set ss. 0 \<le> s_semantic_score s \<and> s_semantic_score s \<le> 1) \<and>
    x \<in> set (se_fuse ws wl ss ls) \<longrightarrow>
      0 \<le> a_hybrid_score x \<and> a_hybrid_score x \<le> 1"
  proof
    assume h: "0 \<le> ws \<and> 0 \<le> wl \<and> ws + wl \<le> 1 \<and>
      (\<forall>s\<in>set ss. 0 \<le> s_semantic_score s \<and> s_semantic_score s \<le> 1) \<and>
      x \<in> set (se_fuse ws wl ss ls)"
    then obtain k e where ke: "(k, e) \<in> set (se_combine ss ls)" and x: "x = se_score ws wl e"
      by (auto elim: se_fuse_entry)
    have "0 \<le> a_semantic_score e \<and> a_semantic_score e \<le> 1"
      using se_combine_semantic_unit[of ss ls] h ke by (auto simp: list_all_iff)
    then show "0 \<le> a_hybrid_score x \<and> a_hybrid_score x \<le> 1"
      using weighted_unit[of ws wl "a_semantic_score e" "se_lex_score (a_lexical_score e)"]
        h se_lex_score_bounds[of "a_lexical_score e"]
      by (simp add: x se_score_simps)
  qed
  from final formula range show ?thesis by (intro conjI)
qed

theorem fused_score_range_witness:
  "(0::real) \<le> 3/5 \<and> (3/5::real) \<le> 1 \<and>
   map hybrid_score
     (fuse (3/5)
        [\<lparr>id' = ''a'', document = ''A'', distance = Some (1/10), score = 9/10, metadata = []\<rparr>,
         \<lparr>id' = ''b'', document = ''B'', distance = Some (3/2), score = - (1/2), metadata = []\<rparr>]
        [\<lparr>b_index = 0, b_bm25_score = 7, b_document = ''C''\<rparr>,
         \<lparr>b_index = 1, b_bm25_score = 3, b_document = ''A''\<rparr>] [''c'', ''a''] [[], []])
     = [3/5, 2/5, 0] \<and>
   map a_hybrid_score
     (se_fuse (3/5) (2/5)
        [\<lparr>s_id = ''a'', s_document = ''A'', s_metadata = [], s_distance = 1/4,
          s_semantic_score = 3/4\<rparr>]
        [\<lparr>l_id = ''a'', l_document = ''A'', l_metadata = [], l_bm25_score = 5,
          l_lexical_score = 5\<rparr>]) = [13/20]"
proof -
  let ?vs = "[\<lparr>id' = ''a'', document = ''A'', distance = Some (1/10), score = 9/10, metadata = []\<rparr>,
         \<lparr>id' = ''b'', document = ''B'', distance = Some (3/2), score = - (1/2), metadata = []\<rparr>]"
  let ?bs = "[\<lparr>b_index = 0, b_bm25_score = 7, b_document = ''C''\<rparr>,
         \<lparr>b_index = 1, b_bm25_score = 3, b_document = ''A''\<rparr>]"
  let ?ss = "[\<lparr>s_id = ''a'', s_document = ''A'', s_metadata = [], s_distance = 1/4,
          s_semantic_score = 3/4\<rparr>]"
  let ?ls = "[\<lparr>l_id = ''a'', l_document = ''A'', l_metadata = [], l_bm25_score = 5,
          l_lexical_score = 5\<rparr>]"
  let ?F = "fuse (3/5) ?vs ?bs [''c'', ''a''] [[], []]"
  let ?G = "se_fuse (3/5) (2/5) ?ss ?ls"
  show ?thesis
    using fused_score_range[of "3/5" "hd ?F" ?vs ?bs "[''c'', ''a'']" "[[], []]"
            "hd ?G" "3/5" "2/5" ?ss ?ls]
    by (simp add: fuse_eval se_fuse_def se_combine_def se_add_semantic_def se_add_lexical_def
        se_score_def se_lex_score_def se_combined.defs se_result.defs)
qed

subsection \<open>The order of the fused list\<close>

lemma first_occurrences_Nil: "first_occurrences [] = []"
  by (simp add: first_occurrences_def)

lemma first_occurrences_snoc:
  "first_occurrences (xs @ [k]) =
     (if k \<in> set xs then first_occurrences xs else first_occurrences xs @ [k])"
  by (simp add: first_occurrences_def)

lemma set_first_occurrences: "set (first_occurrences xs) = set xs"
  by (simp add: first_occurrences_def)

lemma distinct_first_occurrences: "distinct (first_occurrences xs)"
  by (simp add: first_occurrences_def)

lemma keys_update:
  "map fst (AList.update k v al) = (if k \<in> set (map fst al) then map fst al else map fst al @ [k])"
  by (simp add: update_keys image_iff)

lemma keys_update_first_occurrences:
  assumes "map fst al = first_occurrences ks"
  shows "map fst (AList.update k v al) = first_occurrences (ks @ [k])"
proof -
  have "set (map fst al) = set ks" using assms by (simp add: set_first_occurrences)
  then show ?thesis using assms by (simp only: keys_update first_occurrences_snoc)
qed

lemma keys_add_vector_fold:
  assumes "map fst acc = first_occurrences ks"
  shows "map fst (fold (\<lambda>r acc. AList.update (id' r) (g r) acc) rs acc)
           = first_occurrences (ks @ map id' rs)"
  using assms
proof (induction rs arbitrary: acc ks)
  case Nil then show ?case by simp
next
  case (Cons r rs)
  have "map fst (AList.update (id' r) (g r) acc) = first_occurrences (ks @ [id' r])"
    using Cons.prems by (rule keys_update_first_occurrences)
  from Cons.IH[OF this] show ?case by simp
qed

lemma keys_add_vector_results:
  "map fst (add_vector_results vs []) = first_occurrences (map id' vs)"
proof -
  have "map fst (fold (\<lambda>r acc. AList.update (id' r)
               \<lparr>c_semantic_score = normalized_score (map score vs) (score r),
                c_bm25_score = 0, c_result = r\<rparr> acc) vs [])
          = first_occurrences ([] @ map id' vs)"
    by (rule keys_add_vector_fold) (simp add: first_occurrences_Nil)
  then show ?thesis by (simp add: add_vector_results_def first_occurrences_Nil)
qed

lemma keys_add_bm25_result:
  assumes "map fst acc = first_occurrences ks"
  shows "map fst (add_bm25_result ids metas raws b acc)
           = first_occurrences (ks @ lexical_ids ids [b])"
  unfolding add_bm25_result_def Let_def lexical_ids_def
  using assms keys_update_first_occurrences[OF assms]
  by (auto split: option.splits)

lemma lexical_ids_Cons: "lexical_ids ids (b # bs) = lexical_ids ids [b] @ lexical_ids ids bs"
  by (simp add: lexical_ids_def)

lemma keys_add_bm25_fold:
  assumes "map fst acc = first_occurrences ks"
  shows "map fst (fold (add_bm25_result ids metas raws) bs acc)
           = first_occurrences (ks @ lexical_ids ids bs)"
  using assms
proof (induction bs arbitrary: acc ks)
  case Nil then show ?case by (simp add: lexical_ids_def)
next
  case (Cons b bs)
  have "map fst (add_bm25_result ids metas raws b acc)
           = first_occurrences (ks @ lexical_ids ids [b])"
    using Cons.prems by (rule keys_add_bm25_result)
  from Cons.IH[OF this] show ?case by (simp add: lexical_ids_Cons[of ids b bs])
qed

lemma keys_combine:
  "map fst (combine vs bs ids metas) = first_occurrences (map id' vs @ lexical_ids ids bs)"
  unfolding combine_def add_bm25_results_def
  using keys_add_bm25_fold[OF keys_add_vector_results, of ids metas _ bs vs]
  by (auto simp: lexical_ids_def keys_add_vector_results)

lemma keys_se_combine:
  "map fst (se_combine ss ls) = first_occurrences (map s_id ss @ map l_id ls)"
proof -
  have sem: "map fst acc = first_occurrences ks \<Longrightarrow>
      map fst (fold se_add_semantic rs acc) = first_occurrences (ks @ map s_id rs)" for acc ks rs
  proof (induction rs arbitrary: acc ks)
    case Nil then show ?case by simp
  next
    case (Cons r rs)
    have "map fst (se_add_semantic r acc) = first_occurrences (ks @ [s_id r])"
      unfolding se_add_semantic_def using Cons.prems by (rule keys_update_first_occurrences)
    from Cons.IH[OF this] show ?case by simp
  qed
  have lex: "map fst acc = first_occurrences ks \<Longrightarrow>
      map fst (fold se_add_lexical rs acc) = first_occurrences (ks @ map l_id rs)" for acc ks rs
  proof (induction rs arbitrary: acc ks)
    case Nil then show ?case by simp
  next
    case (Cons r rs)
    have "map fst (se_add_lexical r acc) = first_occurrences (ks @ [l_id r])"
      unfolding se_add_lexical_def using keys_update_first_occurrences[OF Cons.prems]
      by (auto split: option.splits)
    from Cons.IH[OF this] show ?case by simp
  qed
  have "map fst (fold se_add_semantic ss []) = first_occurrences ([] @ map s_id ss)"
    by (rule sem) (simp add: first_occurrences_Nil)
  then show ?thesis unfolding se_combine_def using lex by simp
qed

lemma sort_key_descending:
  fixes f :: "'a \<Rightarrow> real"
  shows "sorted_wrt (\<lambda>x y. f y \<le> f x) (sort_key (\<lambda>x. - f x) xs)"
proof -
  have "sorted (map (\<lambda>x. - f x) (sort_key (\<lambda>x. - f x) xs))" by (rule sorted_sort_key)
  then show ?thesis by (simp add: sorted_map)
qed

lemma sort_key_ties:
  fixes f :: "'a \<Rightarrow> real"
  shows "filter (\<lambda>x. f x = h) (sort_key (\<lambda>x. - f x) xs) = filter (\<lambda>x. f x = h) xs"
  using sort_key_stable[of "\<lambda>x. - f x" "- h" xs] by simp

text \<open>
  Claim C8, as the specification states it: every sort of the fusion step orders the
  results descending by fused score, and results with equal fused score by document id.

  The sort key of the code is the fused score alone. Two semantic hits with equal raw
  scores have equal fused scores and come out in the order in which they came in, whatever
  their ids: \<open>b\<close> before \<open>a\<close> in one run, \<open>a\<close> before \<open>b\<close> in the other.
\<close>

theorem tie_order_counterexample:
  "map id' (fuse (1/2)
      [\<lparr>id' = ''b'', document = ''B'', distance = Some (1/2), score = 1/2, metadata = []\<rparr>,
       \<lparr>id' = ''a'', document = ''A'', distance = Some (1/2), score = 1/2, metadata = []\<rparr>]
      [] [] []) = [''b'', ''a''] \<and>
   map id' (fuse (1/2)
      [\<lparr>id' = ''a'', document = ''A'', distance = Some (1/2), score = 1/2, metadata = []\<rparr>,
       \<lparr>id' = ''b'', document = ''B'', distance = Some (1/2), score = 1/2, metadata = []\<rparr>]
      [] [] []) = [''a'', ''b''] \<and>
   map hybrid_score (fuse (1/2)
      [\<lparr>id' = ''b'', document = ''B'', distance = Some (1/2), score = 1/2, metadata = []\<rparr>,
       \<lparr>id' = ''a'', document = ''A'', distance = Some (1/2), score = 1/2, metadata = []\<rparr>]
      [] [] []) = [0, 0]"
  by (simp add: fuse_eval)

text \<open>
  Claim C8, amended: in both engines the fused list is ordered descending by fused score,
  and the sort is stable: results with equal fused score keep the order in which their ids
  entered the dictionary \<^verbatim>\<open>combined_results\<close>, which is the order of first occurrence in the
  semantic hits followed by the lexical hits. The ranking is a function of the two channel
  lists.
\<close>

theorem sort_descending_ties_by_insertion:
  "sorted_wrt (\<lambda>x y. hybrid_score y \<le> hybrid_score x) (fuse a vs bs ids metas) \<and>
   filter (\<lambda>r. hybrid_score r = h) (fuse a vs bs ids metas)
     = filter (\<lambda>r. hybrid_score r = h)
         (map (\<lambda>(doc_id, scores). final_of a scores) (combine vs bs ids metas)) \<and>
   map fst (combine vs bs ids metas) = first_occurrences (map id' vs @ lexical_ids ids bs) \<and>
   sorted_wrt (\<lambda>x y. a_hybrid_score y \<le> a_hybrid_score x) (se_fuse ws wl ss ls) \<and>
   filter (\<lambda>r. a_hybrid_score r = h) (se_fuse ws wl ss ls)
     = filter (\<lambda>r. a_hybrid_score r = h)
         (map (\<lambda>(doc_id, r). se_score ws wl r) (se_combine ss ls)) \<and>
   map fst (se_combine ss ls) = first_occurrences (map s_id ss @ map l_id ls)"
  unfolding fuse_def sort_by_hybrid_score_def se_fuse_def
  by (intro conjI sort_key_descending sort_key_ties keys_combine keys_se_combine)

subsection \<open>The whole search of \<^verbatim>\<open>final_code\<close>\<close>

lemma set_slice_to: "set (slice_to k xs) \<subseteq> set xs"
  by (auto simp: slice_to_def dest: in_set_takeD)

lemmas search_eval = hybrid_search_def search_def generate_embedding_def where_clause_def
  format_hit_def bm25_search_def slice_to_def quiet_engine_def

text \<open>
  Claim C9, as the specification states it: a fusion weight outside \<open>[0,1]\<close> is rejected at
  the boundary of the search engine as a validation error, before any channel is invoked,
  and never reaches the scoring.

  \<^verbatim>\<open>hybrid_search\<close> has no test of \<^verbatim>\<open>semantic_weight\<close>. With the weight 2 the vector
  channel is queried and the search returns a result whose fused score is 2.
\<close>

theorem out_of_range_weight_counterexample:
  "hybrid_search
     (quiet_engine\<lparr>embeddings := (\<lambda>t. Returned (Some [1])),
        collection_query := (\<lambda>emb n w. Inr
          [\<lparr>hit_id = ''a'', hit_document = ''A'', hit_distance = 1/10, hit_metadata = []\<rparr>,
           \<lparr>hit_id = ''b'', hit_document = ''B'', hit_distance = 9/10, hit_metadata = []\<rparr>])\<rparr>)
     ''pruning'' 10 False 2 []
   = Inr [\<lparr>id' = ''a'', document = ''A'', distance = Some (1/10), score = 9/10, metadata = [],
           hybrid_score = 2, semantic_score = 1, bm25_score = 0\<rparr>,
          \<lparr>id' = ''b'', document = ''B'', distance = Some (9/10), score = 1/10, metadata = [],
           hybrid_score = 0, semantic_score = 0, bm25_score = 0\<rparr>]"
  by (simp add: search_eval fuse_eval)

text \<open>
  Claim C9, amended: \<^verbatim>\<open>hybrid_search\<close> does not validate \<^verbatim>\<open>semantic_weight\<close>. For every
  real weight, in \<open>[0,1]\<close> or not, the search fails exactly when the query of the vector
  store fails, and every result it returns has
  \<^verbatim>\<open>hybrid_score\<close> \<open>= weight \<sqdot> semantic_score + (1 - weight) \<sqdot> bm25_score\<close> with both normalized
  scores in \<open>[0,1]\<close>: the weight reaches the scoring as it was passed.
\<close>

theorem weight_reaches_scoring_unvalidated:
  "(isl (hybrid_search e q top_k expand a filters)
      \<longleftrightarrow> isl (search e (if expand then expand_query e q else q) (top_k * 2) filters)) \<and>
   (hybrid_search e q top_k expand a filters = Inr rs \<and> r \<in> set rs \<longrightarrow>
      hybrid_score r = a * semantic_score r + (1 - a) * bm25_score r \<and>
      0 \<le> semantic_score r \<and> semantic_score r \<le> 1 \<and>
      0 \<le> bm25_score r \<and> bm25_score r \<le> 1)"
proof -
  have fails: "isl (hybrid_search e q top_k expand a filters)
      \<longleftrightarrow> isl (search e (if expand then expand_query e q else q) (top_k * 2) filters)"
    by (simp add: hybrid_search_def Let_def split: sum.splits)
  have scores: "hybrid_search e q top_k expand a filters = Inr rs \<and> r \<in> set rs \<longrightarrow>
      hybrid_score r = a * semantic_score r + (1 - a) * bm25_score r \<and>
      0 \<le> semantic_score r \<and> semantic_score r \<le> 1 \<and>
      0 \<le> bm25_score r \<and> bm25_score r \<le> 1"
  proof
    assume h: "hybrid_search e q top_k expand a filters = Inr rs \<and> r \<in> set rs"
    then obtain vs bs where "r \<in> set (fuse a vs bs (all_ids e) (all_metadatas e))"
      using set_slice_to by (fastforce simp: hybrid_search_def Let_def split: sum.splits)
    then show "hybrid_score r = a * semantic_score r + (1 - a) * bm25_score r \<and>
      0 \<le> semantic_score r \<and> semantic_score r \<le> 1 \<and>
      0 \<le> bm25_score r \<and> bm25_score r \<le> 1"
      by (rule fused_formula)
  qed
  from fails scores show ?thesis by (intro conjI)
qed

theorem weight_reaches_scoring_unvalidated_witness:
  "hybrid_search
     (quiet_engine\<lparr>embeddings := (\<lambda>t. Returned (Some [1])),
        collection_query := (\<lambda>emb n w. Inr
          [\<lparr>hit_id = ''a'', hit_document = ''A'', hit_distance = 1/10, hit_metadata = []\<rparr>,
           \<lparr>hit_id = ''b'', hit_document = ''B'', hit_distance = 9/10, hit_metadata = []\<rparr>])\<rparr>)
     ''pruning'' 10 False (- 1) []
   = Inr [\<lparr>id' = ''b'', document = ''B'', distance = Some (9/10), score = 1/10, metadata = [],
           hybrid_score = 0, semantic_score = 0, bm25_score = 0\<rparr>,
          \<lparr>id' = ''a'', document = ''A'', distance = Some (1/10), score = 9/10, metadata = [],
           hybrid_score = - 1, semantic_score = 1, bm25_score = 0\<rparr>] \<and>
   (- 1 :: real) = (- 1) * 1 + (1 - (- 1)) * 0"
proof -
  let ?e = "quiet_engine\<lparr>embeddings := (\<lambda>t. Returned (Some [1])),
        collection_query := (\<lambda>emb n w. Inr
          [\<lparr>hit_id = ''a'', hit_document = ''A'', hit_distance = 1/10, hit_metadata = []\<rparr>,
           \<lparr>hit_id = ''b'', hit_document = ''B'', hit_distance = 9/10, hit_metadata = []\<rparr>])\<rparr>"
  let ?b = "\<lparr>id' = ''b'', document = ''B'', distance = Some (9/10), score = 1/10, metadata = [],
           hybrid_score = 0, semantic_score = 0, bm25_score = 0\<rparr>"
  let ?a = "\<lparr>id' = ''a'', document = ''A'', distance = Some (1/10), score = 9/10, metadata = [],
           hybrid_score = - 1, semantic_score = 1, bm25_score = 0\<rparr>"
  have run: "hybrid_search ?e ''pruning'' 10 False (- 1) [] = Inr [?b, ?a]"
    by (simp add: search_eval fuse_eval)
  have mem: "?a \<in> set [?b, ?a]" by simp
  show ?thesis
    using weight_reaches_scoring_unvalidated[of ?e "''pruning''" 10 False "- 1" "[]" "[?b, ?a]" ?a]
      run mem
    by simp
qed

subsection \<open>The candidate set\<close>

lemma lexical_ids_member:
  "b \<in> set bs \<Longrightarrow> b_index b < length ids \<Longrightarrow> ids ! b_index b \<in> set (lexical_ids ids bs)"
  by (auto simp: lexical_ids_def)

lemma combine_key_is_id:
  "list_all (\<lambda>(k, e). id' (c_result e) = k) (combine vs bs ids metas)"
  unfolding combine_def
  by (rule add_bm25_results_all, rule add_vector_results_all) auto

lemma combine_semantic_absent:
  "list_all (\<lambda>(k, e). k \<notin> id' ` set vs \<longrightarrow> c_semantic_score e = 0) (combine vs bs ids metas)"
  unfolding combine_def
  by (rule add_bm25_results_all, rule add_vector_results_all) auto

lemma combine_bm25_absent:
  "list_all (\<lambda>(k, e). k \<notin> set (lexical_ids ids bs) \<longrightarrow> c_bm25_score e = 0)
     (combine vs bs ids metas)"
  unfolding combine_def
  by (rule add_bm25_results_all, rule add_vector_results_all)
     (auto simp: lexical_ids_member)

lemma map_id_combine:
  "map (\<lambda>(k, e). id' (final_of a e)) (combine vs bs ids metas) = map fst (combine vs bs ids metas)"
  using combine_key_is_id[of vs bs ids metas]
  by (auto simp: list_all_iff final_of_simps)

lemma fuse_ids_set:
  "set (map id' (fuse a vs bs ids metas)) = id' ` set vs \<union> set (lexical_ids ids bs)"
proof -
  have "set (map id' (fuse a vs bs ids metas))
      = set (map (\<lambda>(k, e). id' (final_of a e)) (combine vs bs ids metas))"
    by (auto simp: fuse_def sort_by_hybrid_score_def)
  also have "\<dots> = set (first_occurrences (map id' vs @ lexical_ids ids bs))"
    by (simp only: map_id_combine keys_combine)
  finally show ?thesis by (simp add: set_first_occurrences)
qed

lemma sort_key_map_distinct:
  assumes "distinct (map g xs)"
  shows "distinct (map g (sort_key f xs))"
  using assms by (simp add: distinct_map)

lemma fuse_ids_distinct: "distinct (map id' (fuse a vs bs ids metas))"
proof -
  have "distinct (map (\<lambda>(k, e). id' (final_of a e)) (combine vs bs ids metas))"
    by (simp only: map_id_combine keys_combine distinct_first_occurrences)
  then have "distinct (map id' (map (\<lambda>(k, e). final_of a e) (combine vs bs ids metas)))"
    by (simp add: comp_def case_prod_unfold)
  then show ?thesis unfolding fuse_def sort_by_hybrid_score_def by (rule sort_key_map_distinct)
qed

lemma se_combine_key_is_id: "list_all (\<lambda>(k, r). a_id r = k) (se_combine ss ls)"
  by (rule se_combine_all) auto

lemma se_combine_semantic_absent:
  "list_all (\<lambda>(k, r). k \<notin> s_id ` set ss \<longrightarrow> a_semantic_score r = 0) (se_combine ss ls)"
  by (rule se_combine_all) auto

lemma se_combine_lexical_absent:
  "list_all (\<lambda>(k, r). k \<notin> l_id ` set ls \<longrightarrow> a_lexical_score r = 0) (se_combine ss ls)"
  by (rule se_combine_all) auto

lemma se_fuse_ids_set:
  "set (map a_id (se_fuse ws wl ss ls)) = s_id ` set ss \<union> l_id ` set ls"
proof -
  have keys: "map (\<lambda>(k, r). a_id (se_score ws wl r)) (se_combine ss ls) = map fst (se_combine ss ls)"
    using se_combine_key_is_id[of ss ls] by (auto simp: list_all_iff se_score_simps)
  have "set (map a_id (se_fuse ws wl ss ls))
      = set (map (\<lambda>(k, r). a_id (se_score ws wl r)) (se_combine ss ls))"
    by (auto simp: se_fuse_def)
  also have "\<dots> = set (first_occurrences (map s_id ss @ map l_id ls))"
    by (simp only: keys keys_se_combine)
  finally show ?thesis by (simp add: set_first_occurrences)
qed

lemmas se_fuse_eval = se_fuse_def se_combine_def se_add_semantic_def se_add_lexical_def
  se_score_def se_lex_score_def se_combined.defs se_result.defs

text \<open>
  Claim C2: the fused candidate set is the union of the document ids of the two channels.
  A document that only the lexical channel returned is in the fused list with the semantic
  component 0, and a document that only the semantic channel returned is there with the
  lexical component 0.

  The fused list is the list before it is cut to \<^verbatim>\<open>top_k\<close>. In \<^verbatim>\<open>final_code\<close> the id of a
  BM25 hit is read from \<^verbatim>\<open>all_docs['ids']\<close> at its index. Every id occurs once. The same
  holds for \<^verbatim>\<open>SearchEngine.hybrid_search\<close>.
\<close>

theorem fused_candidates_are_union:
  "set (map id' (fuse a vs bs ids metas)) = id' ` set vs \<union> set (lexical_ids ids bs) \<and>
   distinct (map id' (fuse a vs bs ids metas)) \<and>
   (\<forall>r\<in>set (fuse a vs bs ids metas). id' r \<notin> id' ` set vs \<longrightarrow> semantic_score r = 0) \<and>
   (\<forall>r\<in>set (fuse a vs bs ids metas). id' r \<notin> set (lexical_ids ids bs) \<longrightarrow> bm25_score r = 0) \<and>
   set (map a_id (se_fuse ws wl ss ls)) = s_id ` set ss \<union> l_id ` set ls \<and>
   (\<forall>r\<in>set (se_fuse ws wl ss ls). a_id r \<notin> s_id ` set ss \<longrightarrow> a_semantic_score r = 0) \<and>
   (\<forall>r\<in>set (se_fuse ws wl ss ls). a_id r \<notin> l_id ` set ls \<longrightarrow> a_lexical_score r = 0)"
proof -
  have sem: "\<forall>r\<in>set (fuse a vs bs ids metas). id' r \<notin> id' ` set vs \<longrightarrow> semantic_score r = 0"
  proof
    fix r assume "r \<in> set (fuse a vs bs ids metas)"
    then obtain k e where ke: "(k, e) \<in> set (combine vs bs ids metas)" and r: "r = final_of a e"
      by (rule fuse_entry)
    show "id' r \<notin> id' ` set vs \<longrightarrow> semantic_score r = 0"
      using combine_key_is_id[of vs bs ids metas] combine_semantic_absent[of vs bs ids metas] ke
      by (auto simp: list_all_iff r final_of_simps)
  qed
  have lex: "\<forall>r\<in>set (fuse a vs bs ids metas). id' r \<notin> set (lexical_ids ids bs) \<longrightarrow> bm25_score r = 0"
  proof
    fix r assume "r \<in> set (fuse a vs bs ids metas)"
    then obtain k e where ke: "(k, e) \<in> set (combine vs bs ids metas)" and r: "r = final_of a e"
      by (rule fuse_entry)
    show "id' r \<notin> set (lexical_ids ids bs) \<longrightarrow> bm25_score r = 0"
      using combine_key_is_id[of vs bs ids metas] combine_bm25_absent[of ids bs vs metas] ke
      by (auto simp: list_all_iff r final_of_simps)
  qed
  have se_sem: "\<forall>r\<in>set (se_fuse ws wl ss ls). a_id r \<notin> s_id ` set ss \<longrightarrow> a_semantic_score r = 0"
  proof
    fix r assume "r \<in> set (se_fuse ws wl ss ls)"
    then obtain k e where ke: "(k, e) \<in> set (se_combine ss ls)" and r: "r = se_score ws wl e"
      by (rule se_fuse_entry)
    show "a_id r \<notin> s_id ` set ss \<longrightarrow> a_semantic_score r = 0"
      using se_combine_key_is_id[of ss ls] se_combine_semantic_absent[of ss ls] ke
      by (auto simp: list_all_iff r se_score_simps)
  qed
  have se_lex: "\<forall>r\<in>set (se_fuse ws wl ss ls). a_id r \<notin> l_id ` set ls \<longrightarrow> a_lexical_score r = 0"
  proof
    fix r assume "r \<in> set (se_fuse ws wl ss ls)"
    then obtain k e where ke: "(k, e) \<in> set (se_combine ss ls)" and r: "r = se_score ws wl e"
      by (rule se_fuse_entry)
    show "a_id r \<notin> l_id ` set ls \<longrightarrow> a_lexical_score r = 0"
      using se_combine_key_is_id[of ss ls] se_combine_lexical_absent[of ls ss] ke
      by (auto simp: list_all_iff r se_score_simps)
  qed
  from fuse_ids_set fuse_ids_distinct sem lex se_fuse_ids_set se_sem se_lex
  show ?thesis by (intro conjI)
qed

theorem fused_candidates_are_union_witness:
  "map (\<lambda>r. (id' r, semantic_score r, bm25_score r))
     (fuse (1/2)
        [\<lparr>id' = ''a'', document = ''A'', distance = Some (1/10), score = 9/10, metadata = []\<rparr>,
         \<lparr>id' = ''b'', document = ''B'', distance = Some (9/10), score = 1/10, metadata = []\<rparr>]
        [\<lparr>b_index = 0, b_bm25_score = 3, b_document = ''C''\<rparr>,
         \<lparr>b_index = 2, b_bm25_score = 1, b_document = ''A''\<rparr>]
        [''c'', ''x'', ''a''] [[], [], []])
     = [(''a'', 1, 0), (''c'', 0, 1), (''b'', 0, 0)] \<and>
   lexical_ids [''c'', ''x'', ''a'']
        [\<lparr>b_index = 0, b_bm25_score = 3, b_document = ''C''\<rparr>,
         \<lparr>b_index = 2, b_bm25_score = 1, b_document = ''A''\<rparr>] = [''c'', ''a''] \<and>
   map (\<lambda>r. (a_id r, a_semantic_score r, a_lexical_score r))
     (se_fuse (3/5) (2/5)
        [\<lparr>s_id = ''a'', s_document = ''A'', s_metadata = [], s_distance = 1/4,
          s_semantic_score = 3/4\<rparr>]
        [\<lparr>l_id = ''c'', l_document = ''C'', l_metadata = [], l_bm25_score = 5,
          l_lexical_score = 5\<rparr>]) = [(''a'', 3/4, 0), (''c'', 0, 5)]"
  using fused_candidates_are_union[of "1/2"
        "[\<lparr>id' = ''a'', document = ''A'', distance = Some (1/10), score = 9/10, metadata = []\<rparr>,
         \<lparr>id' = ''b'', document = ''B'', distance = Some (9/10), score = 1/10, metadata = []\<rparr>]"
        "[\<lparr>b_index = 0, b_bm25_score = 3, b_document = ''C''\<rparr>,
         \<lparr>b_index = 2, b_bm25_score = 1, b_document = ''A''\<rparr>]"
        "[''c'', ''x'', ''a'']" "[[], [], []]" "3/5" "2/5"
        "[\<lparr>s_id = ''a'', s_document = ''A'', s_metadata = [], s_distance = 1/4,
          s_semantic_score = 3/4\<rparr>]"
        "[\<lparr>l_id = ''c'', l_document = ''C'', l_metadata = [], l_bm25_score = 5,
          l_lexical_score = 5\<rparr>]"]
  by (simp add: fuse_eval se_fuse_eval lexical_ids_def)

subsection \<open>The extreme weights\<close>

lemma ranked_before_sorted:
  fixes f :: "'a \<Rightarrow> real"
  assumes sorted: "sorted_wrt (\<lambda>x y. f y \<le> f x) F"
    and dist: "distinct (map g F)"
    and x: "x \<in> set F" and y: "y \<in> set F" and less: "f y < f x"
  shows "ranked_before (g x) (g y) (map g F)"
proof -
  from x obtain as zs where F: "F = as @ x # zs" by (auto dest: split_list)
  have "y \<notin> set as"
  proof
    assume "y \<in> set as"
    then have "f x \<le> f y" using sorted by (auto simp: F sorted_wrt_append)
    with less show False by simp
  qed
  moreover have "y \<noteq> x" using less by auto
  ultimately have yz: "y \<in> set zs" using y by (auto simp: F)
  have "g x \<notin> g ` set as" using dist by (auto simp: F)
  then have "\<forall>k\<in>set (map g as). k \<noteq> g x" by force
  then have "dropWhile (\<lambda>k. k \<noteq> g x) (map g F) = g x # map g zs"
    by (simp add: F dropWhile_append)
  then show ?thesis using yz by (simp add: ranked_before_def)
qed

lemma fold_update_other:
  "k \<notin> f ` set rs \<Longrightarrow> map_of (fold (\<lambda>r acc. AList.update (f r) (g r) acc) rs acc) k = map_of acc k"
  by (induction rs arbitrary: acc) (auto simp: update_conv')

lemma fold_update_distinct:
  "distinct (map f rs) \<Longrightarrow> v \<in> set rs \<Longrightarrow>
   map_of (fold (\<lambda>r acc. AList.update (f r) (g r) acc) rs acc) (f v) = Some (g v)"
proof (induction rs arbitrary: acc)
  case Nil then show ?case by simp
next
  case (Cons r rs)
  show ?case
  proof (cases "v = r")
    case True
    then have "f v \<notin> f ` set rs" using Cons.prems(1) by auto
    then show ?thesis using True by (simp add: fold_update_other update_conv')
  next
    case False
    then show ?thesis using Cons by auto
  qed
qed

lemma add_vector_results_lookup:
  assumes "distinct (map id' vs)" "v \<in> set vs"
  shows "map_of (add_vector_results vs []) (id' v)
     = Some \<lparr>c_semantic_score = normalized_score (map score vs) (score v),
             c_bm25_score = 0, c_result = v\<rparr>"
proof -
  have "vs \<noteq> []" using assms(2) by auto
  then show ?thesis
    unfolding add_vector_results_def
    using fold_update_distinct[OF assms, of "\<lambda>r. \<lparr>c_semantic_score = normalized_score (map score vs) (score r),
             c_bm25_score = 0, c_result = r\<rparr>" "[]"]
    by simp
qed

lemma add_bm25_result_keeps_semantic:
  assumes "map_of acc k = Some e"
  shows "\<exists>e'. map_of (add_bm25_result ids metas raws b acc) k = Some e' \<and>
              c_semantic_score e' = c_semantic_score e"
  using assms unfolding add_bm25_result_def Let_def
  by (auto simp: update_conv' split: option.splits)

lemma fold_bm25_keeps_semantic:
  assumes "map_of acc k = Some e"
  shows "\<exists>e'. map_of (fold (add_bm25_result ids metas raws) bs acc) k = Some e' \<and>
              c_semantic_score e' = c_semantic_score e"
  using assms
proof (induction bs arbitrary: acc e)
  case Nil then show ?case by simp
next
  case (Cons b bs)
  from add_bm25_result_keeps_semantic[OF Cons.prems, of ids metas raws b]
  obtain e1 where e1: "map_of (add_bm25_result ids metas raws b acc) k = Some e1"
      "c_semantic_score e1 = c_semantic_score e" by blast
  from Cons.IH[OF e1(1)] e1(2) show ?case by auto
qed

lemma combine_semantic_lookup:
  assumes "distinct (map id' vs)" "v \<in> set vs"
  shows "\<exists>e. (id' v, e) \<in> set (combine vs bs ids metas) \<and>
             c_semantic_score e = normalized_score (map score vs) (score v)"
proof -
  let ?e0 = "\<lparr>c_semantic_score = normalized_score (map score vs) (score v),
             c_bm25_score = 0, c_result = v\<rparr>"
  have start: "map_of (add_vector_results vs []) (id' v) = Some ?e0"
    using assms by (rule add_vector_results_lookup)
  show ?thesis
  proof (cases "bs = []")
    case True
    then show ?thesis using start
      by (auto simp: combine_def add_bm25_results_def dest!: map_of_SomeD intro!: exI[of _ ?e0])
  next
    case False
    from fold_bm25_keeps_semantic[OF start, of ids metas "map b_bm25_score bs" bs]
    obtain e' where "map_of (fold (add_bm25_result ids metas (map b_bm25_score bs)) bs
        (add_vector_results vs [])) (id' v) = Some e'"
      "c_semantic_score e' = normalized_score (map score vs) (score v)" by auto
    then show ?thesis using False
      by (auto simp: combine_def add_bm25_results_def dest!: map_of_SomeD)
  qed
qed

lemma add_bm25_result_other:
  "k \<notin> set (lexical_ids ids [b]) \<Longrightarrow>
   map_of (add_bm25_result ids metas raws b acc) k = map_of acc k"
  unfolding add_bm25_result_def Let_def lexical_ids_def
  by (auto simp: update_conv' split: option.splits)

lemma fold_bm25_other:
  "k \<notin> set (lexical_ids ids bs) \<Longrightarrow>
   map_of (fold (add_bm25_result ids metas raws) bs acc) k = map_of acc k"
proof (induction bs arbitrary: acc)
  case Nil then show ?case by simp
next
  case (Cons b bs)
  then have "k \<notin> set (lexical_ids ids [b])" "k \<notin> set (lexical_ids ids bs)"
    by (auto simp: lexical_ids_def split: if_splits)
  then show ?case using Cons.IH by (simp add: add_bm25_result_other)
qed

lemma add_bm25_result_sets:
  assumes "b_index b < length ids"
  shows "\<exists>e. map_of (add_bm25_result ids metas raws b acc) (ids ! b_index b) = Some e \<and>
             c_bm25_score e = normalized_score raws (b_bm25_score b)"
  using assms unfolding add_bm25_result_def Let_def
  by (auto simp: update_conv' split: option.splits)

lemma fold_bm25_lookup:
  assumes "distinct (lexical_ids ids bs)" "b \<in> set bs" "b_index b < length ids"
  shows "\<exists>e. map_of (fold (add_bm25_result ids metas raws) bs acc) (ids ! b_index b) = Some e \<and>
             c_bm25_score e = normalized_score raws (b_bm25_score b)"
  using assms
proof (induction bs arbitrary: acc)
  case Nil then show ?case by simp
next
  case (Cons x bs)
  have d: "distinct (lexical_ids ids bs)"
    using Cons.prems(1) by (auto simp: lexical_ids_def split: if_splits)
  show ?case
  proof (cases "b \<in> set bs")
    case True
    from Cons.IH[OF d True Cons.prems(3)] show ?thesis by simp
  next
    case False
    then have bx: "b = x" using Cons.prems(2) by simp
    have "ids ! b_index b \<notin> set (lexical_ids ids bs)"
      using Cons.prems(1,3) bx by (auto simp: lexical_ids_def)
    then have "map_of (fold (add_bm25_result ids metas raws) bs
          (add_bm25_result ids metas raws b acc)) (ids ! b_index b)
        = map_of (add_bm25_result ids metas raws b acc) (ids ! b_index b)"
      by (rule fold_bm25_other)
    then show ?thesis using add_bm25_result_sets[OF Cons.prems(3), of metas raws acc] bx by simp
  qed
qed

lemma combine_bm25_lookup:
  assumes "distinct (lexical_ids ids bs)" "b \<in> set bs" "b_index b < length ids"
  shows "\<exists>e. (ids ! b_index b, e) \<in> set (combine vs bs ids metas) \<and>
             c_bm25_score e = normalized_score (map b_bm25_score bs) (b_bm25_score b)"
proof -
  have "bs \<noteq> []" using assms(2) by auto
  then show ?thesis
    using fold_bm25_lookup[OF assms, of metas "map b_bm25_score bs" "add_vector_results vs []"]
    by (auto simp: combine_def add_bm25_results_def dest!: map_of_SomeD)
qed

lemma fuse_sorted: "sorted_wrt (\<lambda>x y. hybrid_score y \<le> hybrid_score x) (fuse a vs bs ids metas)"
  unfolding fuse_def sort_by_hybrid_score_def by (rule sort_key_descending)

lemma fuse_member:
  "(k, e) \<in> set (combine vs bs ids metas) \<Longrightarrow> final_of a e \<in> set (fuse a vs bs ids metas)"
  by (force simp: fuse_set)

text \<open>
  Claim C7: with the fusion weight 1 the fused ranking is the ranking of the semantic
  channel alone, and with the weight 0 that of the lexical channel alone, ties aside.

  With the weight 1 the fused score of every result is its normalized semantic score, the
  fused list is descending in it, and of two semantic hits with different raw scores the
  one with the larger raw score is ranked before the other; with the weight 0 the same
  holds for the BM25 score and the BM25 hits. The ids of the semantic hits, and the ids of
  the BM25 hits, are taken to be distinct, as the vector store and \<^verbatim>\<open>numpy.argsort\<close>
  return them.
\<close>

theorem extreme_weights_follow_one_channel:
  "(\<forall>r\<in>set (fuse 1 vs bs ids metas). hybrid_score r = semantic_score r) \<and>
   sorted_wrt (\<lambda>x y. semantic_score y \<le> semantic_score x) (fuse 1 vs bs ids metas) \<and>
   (distinct (map id' vs) \<and> v \<in> set vs \<and> v' \<in> set vs \<and> score v' < score v \<longrightarrow>
      ranked_before (id' v) (id' v') (map id' (fuse 1 vs bs ids metas))) \<and>
   (\<forall>r\<in>set (fuse 0 vs bs ids metas). hybrid_score r = bm25_score r) \<and>
   sorted_wrt (\<lambda>x y. bm25_score y \<le> bm25_score x) (fuse 0 vs bs ids metas) \<and>
   (distinct (lexical_ids ids bs) \<and> b \<in> set bs \<and> b' \<in> set bs \<and>
    b_index b < length ids \<and> b_index b' < length ids \<and> b_bm25_score b' < b_bm25_score b \<longrightarrow>
      ranked_before (ids ! b_index b) (ids ! b_index b') (map id' (fuse 0 vs bs ids metas)))"
proof -
  have h1: "\<forall>r\<in>set (fuse 1 vs bs ids metas). hybrid_score r = semantic_score r"
    using fused_formula[of _ 1 vs bs ids metas] by simp
  have h0: "\<forall>r\<in>set (fuse 0 vs bs ids metas). hybrid_score r = bm25_score r"
    using fused_formula[of _ 0 vs bs ids metas] by simp
  have s1: "sorted_wrt (\<lambda>x y. semantic_score y \<le> semantic_score x) (fuse 1 vs bs ids metas)"
    using fuse_sorted[of 1 vs bs ids metas] h1
    by (auto elim!: sorted_wrt_mono_rel[rotated])
  have s0: "sorted_wrt (\<lambda>x y. bm25_score y \<le> bm25_score x) (fuse 0 vs bs ids metas)"
    using fuse_sorted[of 0 vs bs ids metas] h0
    by (auto elim!: sorted_wrt_mono_rel[rotated])
  have sem: "distinct (map id' vs) \<and> v \<in> set vs \<and> v' \<in> set vs \<and> score v' < score v \<longrightarrow>
      ranked_before (id' v) (id' v') (map id' (fuse 1 vs bs ids metas))"
  proof
    assume h: "distinct (map id' vs) \<and> v \<in> set vs \<and> v' \<in> set vs \<and> score v' < score v"
    then obtain e e' where
      e: "(id' v, e) \<in> set (combine vs bs ids metas)"
         "c_semantic_score e = normalized_score (map score vs) (score v)" and
      e': "(id' v', e') \<in> set (combine vs bs ids metas)"
         "c_semantic_score e' = normalized_score (map score vs) (score v')"
      using combine_semantic_lookup[of vs v bs ids metas]
            combine_semantic_lookup[of vs v' bs ids metas] by blast
    have ne: "map score vs \<noteq> []" using h by auto
    have less: "semantic_score (final_of 1 e') < semantic_score (final_of 1 e)"
      using normalized_score_strict_mono[OF ne, of "score v'" "score v"] h e(2) e'(2)
      by (simp add: final_of_simps)
    have ids: "id' (final_of 1 e) = id' v" "id' (final_of 1 e') = id' v'"
      using combine_key_is_id[of vs bs ids metas] e(1) e'(1)
      by (auto simp: list_all_iff final_of_simps)
    from ranked_before_sorted[OF s1 fuse_ids_distinct fuse_member[OF e(1)] fuse_member[OF e'(1)] less]
    show "ranked_before (id' v) (id' v') (map id' (fuse 1 vs bs ids metas))"
      by (simp only: ids)
  qed
  have lex: "distinct (lexical_ids ids bs) \<and> b \<in> set bs \<and> b' \<in> set bs \<and>
    b_index b < length ids \<and> b_index b' < length ids \<and> b_bm25_score b' < b_bm25_score b \<longrightarrow>
      ranked_before (ids ! b_index b) (ids ! b_index b') (map id' (fuse 0 vs bs ids metas))"
  proof
    assume h: "distinct (lexical_ids ids bs) \<and> b \<in> set bs \<and> b' \<in> set bs \<and>
      b_index b < length ids \<and> b_index b' < length ids \<and> b_bm25_score b' < b_bm25_score b"
    then obtain e e' where
      e: "(ids ! b_index b, e) \<in> set (combine vs bs ids metas)"
         "c_bm25_score e = normalized_score (map b_bm25_score bs) (b_bm25_score b)" and
      e': "(ids ! b_index b', e') \<in> set (combine vs bs ids metas)"
         "c_bm25_score e' = normalized_score (map b_bm25_score bs) (b_bm25_score b')"
      using combine_bm25_lookup[of ids bs b vs metas]
            combine_bm25_lookup[of ids bs b' vs metas] by blast
    have ne: "map b_bm25_score bs \<noteq> []" using h by auto
    have less: "bm25_score (final_of 0 e') < bm25_score (final_of 0 e)"
      using normalized_score_strict_mono[OF ne, of "b_bm25_score b'" "b_bm25_score b"] h e(2) e'(2)
      by (simp add: final_of_simps)
    have ids: "id' (final_of 0 e) = ids ! b_index b" "id' (final_of 0 e') = ids ! b_index b'"
      using combine_key_is_id[of vs bs ids metas] e(1) e'(1)
      by (auto simp: list_all_iff final_of_simps)
    from ranked_before_sorted[OF s0 fuse_ids_distinct fuse_member[OF e(1)] fuse_member[OF e'(1)] less]
    show "ranked_before (ids ! b_index b) (ids ! b_index b') (map id' (fuse 0 vs bs ids metas))"
      by (simp only: ids)
  qed
  from h1 s1 sem h0 s0 lex show ?thesis by (intro conjI)
qed

theorem extreme_weights_follow_one_channel_witness:
  "map id' (fuse 1
      [\<lparr>id' = ''a'', document = ''A'', distance = Some (1/10), score = 9/10, metadata = []\<rparr>,
       \<lparr>id' = ''b'', document = ''B'', distance = Some (9/10), score = 1/10, metadata = []\<rparr>]
      [\<lparr>b_index = 0, b_bm25_score = 3, b_document = ''C''\<rparr>,
       \<lparr>b_index = 2, b_bm25_score = 1, b_document = ''A''\<rparr>]
      [''c'', ''x'', ''a''] [[], [], []]) = [''a'', ''b'', ''c''] \<and>
   ranked_before ''a'' ''b'' (map id' (fuse 1
      [\<lparr>id' = ''a'', document = ''A'', distance = Some (1/10), score = 9/10, metadata = []\<rparr>,
       \<lparr>id' = ''b'', document = ''B'', distance = Some (9/10), score = 1/10, metadata = []\<rparr>]
      [\<lparr>b_index = 0, b_bm25_score = 3, b_document = ''C''\<rparr>,
       \<lparr>b_index = 2, b_bm25_score = 1, b_document = ''A''\<rparr>]
      [''c'', ''x'', ''a''] [[], [], []])) \<and>
   map id' (fuse 0
      [\<lparr>id' = ''a'', document = ''A'', distance = Some (1/10), score = 9/10, metadata = []\<rparr>,
       \<lparr>id' = ''b'', document = ''B'', distance = Some (9/10), score = 1/10, metadata = []\<rparr>]
      [\<lparr>b_index = 0, b_bm25_score = 3, b_document = ''C''\<rparr>,
       \<lparr>b_index = 2, b_bm25_score = 1, b_document = ''A''\<rparr>]
      [''c'', ''x'', ''a''] [[], [], []]) = [''c'', ''a'', ''b''] \<and>
   ranked_before ''c'' ''a'' (map id' (fuse 0
      [\<lparr>id' = ''a'', document = ''A'', distance = Some (1/10), score = 9/10, metadata = []\<rparr>,
       \<lparr>id' = ''b'', document = ''B'', distance = Some (9/10), score = 1/10, metadata = []\<rparr>]
      [\<lparr>b_index = 0, b_bm25_score = 3, b_document = ''C''\<rparr>,
       \<lparr>b_index = 2, b_bm25_score = 1, b_document = ''A''\<rparr>]
      [''c'', ''x'', ''a''] [[], [], []]))"
proof -
  let ?va = "\<lparr>id' = ''a'', document = ''A'', distance = Some (1/10), score = 9/10, metadata = []\<rparr>"
  let ?vb = "\<lparr>id' = ''b'', document = ''B'', distance = Some (9/10), score = 1/10, metadata = []\<rparr>"
  let ?bc = "\<lparr>b_index = 0, b_bm25_score = 3, b_document = ''C''\<rparr>"
  let ?ba = "\<lparr>b_index = 2, b_bm25_score = 1, b_document = ''A''\<rparr>"
  let ?ids = "[''c'', ''x'', ''a'']"
  have sem: "distinct (map id' [?va, ?vb]) \<and> ?va \<in> set [?va, ?vb] \<and> ?vb \<in> set [?va, ?vb] \<and>
      score ?vb < score ?va" by simp
  have lex: "distinct (lexical_ids ?ids [?bc, ?ba]) \<and> ?bc \<in> set [?bc, ?ba] \<and>
      ?ba \<in> set [?bc, ?ba] \<and> b_index ?bc < length ?ids \<and> b_index ?ba < length ?ids \<and>
      b_bm25_score ?ba < b_bm25_score ?bc" by (simp add: lexical_ids_def)
  have order: "map id' (fuse 1 [?va, ?vb] [?bc, ?ba] ?ids [[], [], []]) = [''a'', ''b'', ''c'']"
     "map id' (fuse 0 [?va, ?vb] [?bc, ?ba] ?ids [[], [], []]) = [''c'', ''a'', ''b'']"
    by (simp_all add: fuse_eval)
  show ?thesis
    using extreme_weights_follow_one_channel[of "[?va, ?vb]" "[?bc, ?ba]" ?ids "[[], [], []]"
        ?va ?vb ?bc ?ba] sem lex order
    by simp
qed

subsection \<open>Filters\<close>

lemma combine_bm25_only_metadata:
  "list_all (\<lambda>(k, e). k \<notin> id' ` set vs \<longrightarrow>
       (\<exists>i. i < length ids \<and> k = ids ! i \<and>
            metadata (c_result e) = (if i < length metas then metas ! i else [])))
     (combine vs bs ids metas)"
  unfolding combine_def
  by (rule add_bm25_results_all, rule add_vector_results_all) auto

lemmas string_eval = split_def lower_def lower_char_def isspace_def strip_def
  replace_newlines_def first_line_def newline_def

text \<open>
  Claim C10: in \<^verbatim>\<open>HybridSearchEngine.hybrid_search\<close> of \<^verbatim>\<open>final_code\<close> the argument
  \<^verbatim>\<open>filters\<close> is used only inside the vector query of the semantic channel; a document
  that enters the candidate set through BM25 alone is returned without being checked
  against the filters, so a filtered search can return documents that do not satisfy the
  filter.

  \<^verbatim>\<open>bm25_search\<close> does not take the filters. Whatever the filters are, a BM25 hit whose id
  is not among the semantic hits is in the fused list, with the metadata stored at its
  index, which nothing compares with the filters. The ids of the collection are distinct.
  In the concrete run that follows the theorem, the filter asks for \<^verbatim>\<open>cs.CV\<close> and the
  search returns the paper of \<^verbatim>\<open>math.CO\<close>.
\<close>

theorem bm25_hits_bypass_filters:
  "sq = (if expand then expand_query e q else q) \<and>
   search e sq (top_k * 2) filters = Inr vector_results \<and>
   distinct (all_ids e) \<and>
   b \<in> set (bm25_search e sq (top_k * 2)) \<and> b_index b < length (all_ids e) \<and>
   all_ids e ! b_index b \<notin> id' ` set vector_results \<longrightarrow>
     hybrid_search e q top_k expand a filters
       = Inr (slice_to top_k
           (fuse a vector_results (bm25_search e sq (top_k * 2)) (all_ids e) (all_metadatas e))) \<and>
     (\<exists>r\<in>set (fuse a vector_results (bm25_search e sq (top_k * 2))
                (all_ids e) (all_metadatas e)).
        id' r = all_ids e ! b_index b \<and> semantic_score r = 0 \<and>
        metadata r = (if b_index b < length (all_metadatas e)
                      then all_metadatas e ! b_index b else []))"
proof
  let ?bs = "bm25_search e sq (top_k * 2)"
  let ?F = "fuse a vector_results ?bs (all_ids e) (all_metadatas e)"
  assume h: "sq = (if expand then expand_query e q else q) \<and>
   search e sq (top_k * 2) filters = Inr vector_results \<and>
   distinct (all_ids e) \<and>
   b \<in> set ?bs \<and> b_index b < length (all_ids e) \<and>
   all_ids e ! b_index b \<notin> id' ` set vector_results"
  have sq: "(if expand then expand_query e q else q) = sq" using h by blast
  have found: "search e sq (top_k * 2) filters = Inr vector_results" using h by blast
  have dist: "distinct (all_ids e)" using h by blast
  have mem: "b \<in> set ?bs" using h by blast
  have inr: "b_index b < length (all_ids e)" using h by blast
  have out: "all_ids e ! b_index b \<notin> id' ` set vector_results" using h by blast
  have run: "hybrid_search e q top_k expand a filters = Inr (slice_to top_k ?F)"
    unfolding hybrid_search_def Let_def sq by (simp add: found)
  have "all_ids e ! b_index b \<in> set (lexical_ids (all_ids e) ?bs)"
    using mem inr by (rule lexical_ids_member)
  then have "all_ids e ! b_index b \<in> set (map id' ?F)"
    by (simp only: fuse_ids_set) simp
  then obtain r where r: "r \<in> set ?F" "id' r = all_ids e ! b_index b" by auto
  then obtain k c where kc: "(k, c) \<in> set (combine vector_results ?bs (all_ids e) (all_metadatas e))"
      and rc: "r = final_of a c"
    by (auto elim: fuse_entry)
  have k: "k = all_ids e ! b_index b"
    using combine_key_is_id[of vector_results ?bs "all_ids e" "all_metadatas e"] kc r(2)
    by (auto simp: list_all_iff rc final_of_simps)
  have absent: "k \<notin> id' ` set vector_results" using out k by simp
  have sem: "semantic_score r = 0"
    using combine_semantic_absent[of vector_results ?bs "all_ids e" "all_metadatas e"] kc absent
    by (auto simp: list_all_iff rc final_of_simps)
  obtain i where i: "i < length (all_ids e)" "k = all_ids e ! i"
      "metadata (c_result c) = (if i < length (all_metadatas e) then all_metadatas e ! i else [])"
    using combine_bm25_only_metadata[of vector_results "all_ids e" "all_metadatas e" ?bs] kc absent
    by (auto simp: list_all_iff)
  have "i = b_index b" using i(1,2) k inr dist by (simp add: nth_eq_iff_index_eq)
  then have "metadata r = (if b_index b < length (all_metadatas e)
                      then all_metadatas e ! b_index b else [])"
    using i(3) by (simp add: rc final_of_simps)
  with run r sem show "hybrid_search e q top_k expand a filters = Inr (slice_to top_k ?F) \<and>
     (\<exists>r\<in>set ?F. id' r = all_ids e ! b_index b \<and> semantic_score r = 0 \<and>
        metadata r = (if b_index b < length (all_metadatas e)
                      then all_metadatas e ! b_index b else []))"
    by blast
qed

theorem bm25_hits_bypass_filters_witness:
  "hybrid_search filtered_engine ''pruning'' 10 False (3/5) [(''categories'', Some ''cs.CV'')]
     = Inr [\<lparr>id' = ''p1'', document = ''vision transformers'', distance = Some (1/5),
             score = 4/5, metadata = [(''categories'', ''cs.CV'')],
             hybrid_score = 0, semantic_score = 0, bm25_score = 0\<rparr>,
            \<lparr>id' = ''p2'', document = ''graph pruning'', distance = None,
             score = 0, metadata = [(''categories'', ''math.CO'')],
             hybrid_score = 0, semantic_score = 0, bm25_score = 0\<rparr>] \<and>
   satisfies [(''categories'', Some ''cs.CV'')] [(''categories'', ''cs.CV'')] \<and>
   \<not> satisfies [(''categories'', Some ''cs.CV'')] [(''categories'', ''math.CO'')]"
proof -
  let ?filters = "[(''categories'', Some ''cs.CV'')]"
  let ?b = "\<lparr>b_index = 1, b_bm25_score = 2, b_document = ''graph pruning''\<rparr>"
  let ?v = "\<lparr>id' = ''p1'', document = ''vision transformers'', distance = Some (1/5),
             score = 4/5, metadata = [(''categories'', ''cs.CV'')]\<rparr>"
  have lexical: "bm25_search filtered_engine ''pruning'' 20 = [?b]"
    by (simp add: bm25_search_def filtered_engine_def quiet_engine_def string_eval slice_to_def)
  have semantic: "search filtered_engine ''pruning'' 20 ?filters = Inr [?v]"
    by (simp add: search_def generate_embedding_def where_clause_def format_hit_def
          filtered_engine_def quiet_engine_def)
  have store: "all_ids filtered_engine = [''p1'', ''p2'']"
    "all_metadatas filtered_engine = [[(''categories'', ''cs.CV'')], [(''categories'', ''math.CO'')]]"
    by (simp_all add: filtered_engine_def quiet_engine_def)
  have hyps: "''pruning'' = (if False then expand_query filtered_engine ''pruning'' else ''pruning'') \<and>
      search filtered_engine ''pruning'' (10 * 2) ?filters = Inr [?v] \<and>
      distinct (all_ids filtered_engine) \<and>
      ?b \<in> set (bm25_search filtered_engine ''pruning'' (10 * 2)) \<and>
      b_index ?b < length (all_ids filtered_engine) \<and>
      all_ids filtered_engine ! b_index ?b \<notin> id' ` set [?v]"
    by (simp add: lexical semantic store)
  have run: "hybrid_search filtered_engine ''pruning'' 10 False (3/5) ?filters
     = Inr (slice_to 10 (fuse (3/5) [?v] [?b] [''p1'', ''p2'']
          [[(''categories'', ''cs.CV'')], [(''categories'', ''math.CO'')]]))"
    using bm25_hits_bypass_filters[of "''pruning''" False filtered_engine "''pruning''" 10
        ?filters "[?v]" ?b "3/5"] hyps
    by (simp add: lexical store)
  show ?thesis
    unfolding run
    by (simp add: fuse_eval slice_to_def satisfies_def where_clause_def)
qed

subsection \<open>Failure of the embedding provider\<close>

lemma update_fresh: "k \<notin> fst ` set al \<Longrightarrow> AList.update k v al = al @ [(k, v)]"
  by (induction al) auto

lemma add_bm25_result_fresh:
  assumes "set (lexical_ids ids [b]) \<inter> fst ` set acc = {}"
  shows "add_bm25_result ids metas raws b acc
     = acc @ map (bm25_only_entry ids metas raws) (filter (\<lambda>b. b_index b < length ids) [b])"
proof (cases "b_index b < length ids")
  case False
  then show ?thesis by (simp add: add_bm25_result_def)
next
  case True
  then have fresh: "ids ! b_index b \<notin> fst ` set acc"
    using assms by (simp add: lexical_ids_def)
  then have "map_of acc (ids ! b_index b) = None" by (simp add: map_of_eq_None_iff)
  then show ?thesis using True fresh
    by (simp add: add_bm25_result_def Let_def bm25_only_entry_def update_fresh)
qed

lemma fold_bm25_fresh:
  assumes "distinct (lexical_ids ids bs)" "set (lexical_ids ids bs) \<inter> fst ` set acc = {}"
  shows "fold (add_bm25_result ids metas raws) bs acc
     = acc @ map (bm25_only_entry ids metas raws) (filter (\<lambda>b. b_index b < length ids) bs)"
  using assms
proof (induction bs arbitrary: acc)
  case Nil then show ?case by simp
next
  case (Cons b bs)
  have split: "lexical_ids ids (b # bs) = lexical_ids ids [b] @ lexical_ids ids bs"
    by (rule lexical_ids_Cons)
  have one: "set (lexical_ids ids [b]) \<inter> fst ` set acc = {}"
    using Cons.prems(2) unfolding split by auto
  have step: "add_bm25_result ids metas raws b acc
     = acc @ map (bm25_only_entry ids metas raws) (filter (\<lambda>b. b_index b < length ids) [b])"
    using one by (rule add_bm25_result_fresh)
  have d: "distinct (lexical_ids ids bs)" using Cons.prems(1) unfolding split by simp
  have keys: "fst ` set (add_bm25_result ids metas raws b acc)
      = fst ` set acc \<union> set (lexical_ids ids [b])"
    unfolding step
    by (cases "b_index b < length ids") (simp_all add: lexical_ids_def bm25_only_entry_def image_Un)
  have disj: "set (lexical_ids ids bs) \<inter> fst ` set (add_bm25_result ids metas raws b acc) = {}"
    unfolding keys using Cons.prems unfolding split by auto
  show ?case
    using Cons.IH[OF d disj] by (simp add: step)
qed

lemma combine_no_vector:
  assumes "distinct (lexical_ids ids bs)"
  shows "combine [] bs ids metas
     = map (bm25_only_entry ids metas (map b_bm25_score bs))
         (filter (\<lambda>b. b_index b < length ids) bs)"
proof (cases "bs = []")
  case True
  then show ?thesis by (simp add: combine_def add_bm25_results_def add_vector_results_def)
next
  case False
  then show ?thesis
    using fold_bm25_fresh[OF assms, of "[]" metas "map b_bm25_score bs"]
    by (simp add: combine_def add_bm25_results_def add_vector_results_def)
qed

lemma fuse_no_vector:
  assumes d: "distinct (lexical_ids ids bs)" and a: "a \<le> 1"
    and sorted: "sorted_wrt (\<lambda>x y. b_bm25_score y \<le> b_bm25_score x) bs"
  shows "fuse a [] bs ids metas
     = map (\<lambda>b. final_of a (snd (bm25_only_entry ids metas (map b_bm25_score bs) b)))
         (filter (\<lambda>b. b_index b < length ids) bs)"
proof -
  let ?raws = "map b_bm25_score bs"
  let ?mk = "\<lambda>b. final_of a (snd (bm25_only_entry ids metas ?raws b))"
  let ?hits = "filter (\<lambda>b. b_index b < length ids) bs"
  have hyb: "hybrid_score (?mk b) = (1 - a) * normalized_score ?raws (b_bm25_score b)" for b
    by (simp add: final_of_simps bm25_only_entry_def)
  have desc: "sorted_wrt (\<lambda>x y. hybrid_score (?mk y) \<le> hybrid_score (?mk x)) bs"
  proof (rule sorted_wrt_mono_rel[OF _ sorted])
    fix x y assume "x \<in> set bs" "y \<in> set bs" "b_bm25_score y \<le> b_bm25_score x"
    then have "normalized_score ?raws (b_bm25_score y) \<le> normalized_score ?raws (b_bm25_score x)"
      by (intro normalized_score_mono) auto
    then show "hybrid_score (?mk y) \<le> hybrid_score (?mk x)"
      unfolding hyb using a by (intro mult_left_mono) auto
  qed
  then have "sorted_wrt (\<lambda>x y. hybrid_score (?mk y) \<le> hybrid_score (?mk x)) ?hits"
    by (rule sorted_wrt_filter)
  then have "sorted (map (\<lambda>x. - hybrid_score x) (map ?mk ?hits))"
    by (simp add: sorted_map sorted_wrt_map)
  then have "sort_key (\<lambda>x. - hybrid_score x) (map ?mk ?hits) = map ?mk ?hits"
    by (rule sort_key_id_if_sorted)
  moreover have "map (\<lambda>(doc_id, scores). final_of a scores) (combine [] bs ids metas) = map ?mk ?hits"
    by (simp add: combine_no_vector[OF d] case_prod_unfold comp_def)
  ultimately show ?thesis by (simp add: fuse_def sort_by_hybrid_score_def)
qed

lemma slice_to_take: "\<exists>n. slice_to k xs = take n xs"
  by (auto simp: slice_to_def)

lemma bm25_search_indices:
  "\<exists>is. bm25_search e q k
     = map (\<lambda>idx. \<lparr>b_index = idx, b_bm25_score = get_scores e (split (lower q)) ! idx,
                     b_document = documents_corpus e ! idx\<rparr>) is \<and>
     (\<exists>n. is = filter (\<lambda>idx. get_scores e (split (lower q)) ! idx > 0)
            (take n (rev (argsort e (get_scores e (split (lower q)))))))"
proof (cases "documents_corpus e = []")
  case True
  then show ?thesis by (auto simp: bm25_search_def intro!: exI[of _ 0])
next
  case False
  obtain n where "slice_to k (rev (argsort e (get_scores e (split (lower q)))))
      = take n (rev (argsort e (get_scores e (split (lower q)))))"
    using slice_to_take by blast
  then show ?thesis using False by (auto simp: bm25_search_def Let_def)
qed

lemma bm25_search_sorted:
  assumes "sorted (map (\<lambda>i. get_scores e (split (lower q)) ! i)
             (argsort e (get_scores e (split (lower q)))))"
  shows "sorted_wrt (\<lambda>x y. b_bm25_score y \<le> b_bm25_score x) (bm25_search e q k)"
proof -
  let ?s = "get_scores e (split (lower q))"
  obtain "is" n where bs: "bm25_search e q k
     = map (\<lambda>idx. \<lparr>b_index = idx, b_bm25_score = ?s ! idx,
                     b_document = documents_corpus e ! idx\<rparr>) is"
    and "is": "is = filter (\<lambda>idx. ?s ! idx > 0) (take n (rev (argsort e ?s)))"
    using bm25_search_indices[of e q k] by blast
  have "sorted_wrt (\<lambda>i j. ?s ! i \<le> ?s ! j) (argsort e ?s)"
    using assms by (simp add: sorted_map)
  then have "sorted_wrt (\<lambda>i j. ?s ! j \<le> ?s ! i) (rev (argsort e ?s))"
    by (simp add: sorted_wrt_rev)
  then have "sorted_wrt (\<lambda>i j. ?s ! j \<le> ?s ! i) (take n (rev (argsort e ?s)))"
    by (rule sorted_wrt_take)
  then have "sorted_wrt (\<lambda>i j. ?s ! j \<le> ?s ! i) is"
    unfolding "is" by (rule sorted_wrt_filter)
  then show ?thesis by (simp add: bs sorted_wrt_map)
qed

lemma distinct_map_nth:
  assumes "distinct xs" "distinct is" "\<forall>i\<in>set is. i < length xs"
  shows "distinct (map (\<lambda>i. xs ! i) is)"
  using assms by (auto simp: distinct_map inj_on_def nth_eq_iff_index_eq)

lemma bm25_search_distinct:
  assumes "distinct ids" "distinct (argsort e (get_scores e (split (lower q))))"
  shows "distinct (lexical_ids ids (bm25_search e q k))"
proof -
  let ?s = "get_scores e (split (lower q))"
  obtain "is" n where bs: "bm25_search e q k
     = map (\<lambda>idx. \<lparr>b_index = idx, b_bm25_score = ?s ! idx,
                     b_document = documents_corpus e ! idx\<rparr>) is"
    and "is": "is = filter (\<lambda>idx. ?s ! idx > 0) (take n (rev (argsort e ?s)))"
    using bm25_search_indices[of e q k] by blast
  have d: "distinct is" unfolding "is" using assms(2) by (simp add: distinct_take)
  have "lexical_ids ids (bm25_search e q k)
      = map (\<lambda>i. ids ! i) (filter (\<lambda>i. i < length ids) is)"
    by (simp add: lexical_ids_def bs filter_map comp_def)
  moreover have "distinct (map (\<lambda>i. ids ! i) (filter (\<lambda>i. i < length ids) is))"
    using assms(1) d by (intro distinct_map_nth) auto
  ultimately show ?thesis by simp
qed

lemma search_without_embedding:
  "embeddings e t = Raised \<or> embeddings e t = Returned None \<Longrightarrow> search e t n filters = Inr []"
  by (auto simp: search_def generate_embedding_def)

text \<open>
  Claim C4, as the specification states it: if the embedding provider fails, the semantic
  channel returns an empty candidate list and the search returns a result list ordered
  purely by the lexical channel, with the semantic score 0 for every result, and raises no
  error.

  \<^verbatim>\<open>SearchEngine.get_embedding\<close> of \<^verbatim>\<open>arxiv-search-engine\<close> returns 768 zeros when the
  provider fails, and \<^verbatim>\<open>semantic_search\<close> queries the collection with them: the semantic
  channel returns the hits of the zero vector, not the empty list.
\<close>

theorem zero_vector_counterexample:
  "se_semantic_search (\<lambda>t. Raised)
     (\<lambda>emb n. if emb = replicate 768 0
               then Inr [\<lparr>hit_id = ''a'', hit_document = ''A'', hit_distance = 1/2,
                          hit_metadata = []\<rparr>]
               else Inr [])
     ''pruning'' 20
   = [\<lparr>s_id = ''a'', s_document = ''A'', s_metadata = [], s_distance = 1/2,
       s_semantic_score = 1/2\<rparr>] \<and>
   se_semantic_search (\<lambda>t. Raised)
     (\<lambda>emb n. if emb = replicate 768 0
               then Inr [\<lparr>hit_id = ''a'', hit_document = ''A'', hit_distance = 1/2,
                          hit_metadata = []\<rparr>]
               else Inr [])
     ''pruning'' 20 \<noteq> []"
  by (simp add: se_semantic_search_def se_get_embedding_def)

text \<open>
  Claim C4, amended: in \<^verbatim>\<open>final_code\<close>, if the embedding provider fails for the search
  query, \<^verbatim>\<open>VectorDatabase.search\<close> returns the empty list without querying the
  collection, and \<^verbatim>\<open>hybrid_search\<close> returns, without an error, the fusion of the BM25 hits
  alone: every result has the semantic score 0 and the fused score
  \<open>(1 - weight) \<sqdot> bm25_score\<close>, and for a weight of at most 1 the results come in the order of
  the BM25 hits (\<^verbatim>\<open>numpy.argsort\<close> returning distinct indices in ascending order of score,
  and the ids of the collection being distinct). In \<^verbatim>\<open>arxiv-search-engine\<close> the semantic
  channel is then what the collection returns for the vector of 768 zeros, and empty only
  if that query raises.
\<close>

theorem embedding_failure_falls_back_to_lexical:
  "(sq = (if expand then expand_query e q else q) \<and>
    (embeddings e sq = Raised \<or> embeddings e sq = Returned None) \<longrightarrow>
      search e sq (top_k * 2) filters = Inr [] \<and>
      hybrid_search e q top_k expand a filters
        = Inr (slice_to top_k
            (fuse a [] (bm25_search e sq (top_k * 2)) (all_ids e) (all_metadatas e))) \<and>
      (\<forall>r\<in>set (fuse a [] (bm25_search e sq (top_k * 2)) (all_ids e) (all_metadatas e)).
          semantic_score r = 0 \<and> hybrid_score r = (1 - a) * bm25_score r) \<and>
      (a \<le> 1 \<and> distinct (all_ids e) \<and>
       distinct (argsort e (get_scores e (split (lower sq)))) \<and>
       sorted (map (\<lambda>i. get_scores e (split (lower sq)) ! i)
                 (argsort e (get_scores e (split (lower sq))))) \<longrightarrow>
         map id' (fuse a [] (bm25_search e sq (top_k * 2)) (all_ids e) (all_metadatas e))
           = lexical_ids (all_ids e) (bm25_search e sq (top_k * 2)))) \<and>
   (post_embeddings t = Raised \<or> post_embeddings t = Returned None \<longrightarrow>
      se_semantic_search post_embeddings query_collection t n
        = (case query_collection (replicate 768 0) n of
             Inl err \<Rightarrow> []
           | Inr hits \<Rightarrow>
               map (\<lambda>h. \<lparr>s_id = hit_id h, s_document = hit_document h,
                     s_metadata = hit_metadata h, s_distance = hit_distance h,
                     s_semantic_score = 1 - hit_distance h\<rparr>) hits))"
proof -
  let ?bs = "bm25_search e sq (top_k * 2)"
  let ?F = "fuse a [] ?bs (all_ids e) (all_metadatas e)"
  let ?s = "get_scores e (split (lower sq))"
  have final: "sq = (if expand then expand_query e q else q) \<and>
    (embeddings e sq = Raised \<or> embeddings e sq = Returned None) \<longrightarrow>
      search e sq (top_k * 2) filters = Inr [] \<and>
      hybrid_search e q top_k expand a filters = Inr (slice_to top_k ?F) \<and>
      (\<forall>r\<in>set ?F. semantic_score r = 0 \<and> hybrid_score r = (1 - a) * bm25_score r) \<and>
      (a \<le> 1 \<and> distinct (all_ids e) \<and> distinct (argsort e ?s) \<and>
       sorted (map (\<lambda>i. ?s ! i) (argsort e ?s)) \<longrightarrow>
         map id' ?F = lexical_ids (all_ids e) ?bs)"
  proof
    assume h: "sq = (if expand then expand_query e q else q) \<and>
      (embeddings e sq = Raised \<or> embeddings e sq = Returned None)"
    have sq: "(if expand then expand_query e q else q) = sq" using h by blast
    have failed: "embeddings e sq = Raised \<or> embeddings e sq = Returned None" using h by blast
    have empty: "search e sq (top_k * 2) filters = Inr []"
      using failed by (rule search_without_embedding)
    have run: "hybrid_search e q top_k expand a filters = Inr (slice_to top_k ?F)"
      unfolding hybrid_search_def Let_def sq by (simp add: empty)
    have scores: "\<forall>r\<in>set ?F. semantic_score r = 0 \<and> hybrid_score r = (1 - a) * bm25_score r"
    proof
      fix r assume r: "r \<in> set ?F"
      then obtain k c where kc: "(k, c) \<in> set (combine [] ?bs (all_ids e) (all_metadatas e))"
        and rc: "r = final_of a c" by (rule fuse_entry)
      have "c_semantic_score c = 0"
        using combine_semantic_absent[of "[]" ?bs "all_ids e" "all_metadatas e"] kc
        by (auto simp: list_all_iff)
      then show "semantic_score r = 0 \<and> hybrid_score r = (1 - a) * bm25_score r"
        by (simp add: rc final_of_simps)
    qed
    have order: "a \<le> 1 \<and> distinct (all_ids e) \<and> distinct (argsort e ?s) \<and>
       sorted (map (\<lambda>i. ?s ! i) (argsort e ?s)) \<longrightarrow>
         map id' ?F = lexical_ids (all_ids e) ?bs"
    proof
      assume g: "a \<le> 1 \<and> distinct (all_ids e) \<and> distinct (argsort e ?s) \<and>
       sorted (map (\<lambda>i. ?s ! i) (argsort e ?s))"
      have a: "a \<le> 1" using g by blast
      have d: "distinct (lexical_ids (all_ids e) ?bs)"
        using g by (intro bm25_search_distinct) blast+
      have s: "sorted_wrt (\<lambda>x y. b_bm25_score y \<le> b_bm25_score x) ?bs"
        using g by (intro bm25_search_sorted) blast
      show "map id' ?F = lexical_ids (all_ids e) ?bs"
        unfolding fuse_no_vector[OF d a s]
        by (simp add: lexical_ids_def final_of_simps bm25_only_entry_def comp_def)
    qed
    from empty run scores order
    show "search e sq (top_k * 2) filters = Inr [] \<and>
      hybrid_search e q top_k expand a filters = Inr (slice_to top_k ?F) \<and>
      (\<forall>r\<in>set ?F. semantic_score r = 0 \<and> hybrid_score r = (1 - a) * bm25_score r) \<and>
      (a \<le> 1 \<and> distinct (all_ids e) \<and> distinct (argsort e ?s) \<and>
       sorted (map (\<lambda>i. ?s ! i) (argsort e ?s)) \<longrightarrow>
         map id' ?F = lexical_ids (all_ids e) ?bs)"
      by (intro conjI)
  qed
  have other: "post_embeddings t = Raised \<or> post_embeddings t = Returned None \<longrightarrow>
      se_semantic_search post_embeddings query_collection t n
        = (case query_collection (replicate 768 0) n of
             Inl err \<Rightarrow> []
           | Inr hits \<Rightarrow>
               map (\<lambda>h. \<lparr>s_id = hit_id h, s_document = hit_document h,
                     s_metadata = hit_metadata h, s_distance = hit_distance h,
                     s_semantic_score = 1 - hit_distance h\<rparr>) hits)"
    by (auto simp: se_semantic_search_def se_get_embedding_def)
  from final other show ?thesis by (intro conjI)
qed

theorem embedding_failure_falls_back_to_lexical_witness:
  "embeddings lexical_engine ''pruning'' = Raised \<and>
   hybrid_search lexical_engine ''pruning'' 10 False (3/5) []
     = Inr [\<lparr>id' = ''p3'', document = ''network pruning survey'', distance = None, score = 0,
             metadata = [], hybrid_score = 2/5, semantic_score = 0, bm25_score = 1\<rparr>,
            \<lparr>id' = ''p1'', document = ''graph pruning'', distance = None, score = 0,
             metadata = [], hybrid_score = 0, semantic_score = 0, bm25_score = 0\<rparr>] \<and>
   map b_index (bm25_search lexical_engine ''pruning'' 20) = [2, 0] \<and>
   lexical_ids (all_ids lexical_engine) (bm25_search lexical_engine ''pruning'' 20)
     = [''p3'', ''p1''] \<and>
   se_semantic_search (\<lambda>t. Raised) (\<lambda>emb n. Inl ChromaError) ''pruning'' 20 = []"
proof -
  let ?b3 = "\<lparr>b_index = 2, b_bm25_score = 3, b_document = ''network pruning survey''\<rparr>"
  let ?b1 = "\<lparr>b_index = 0, b_bm25_score = 1, b_document = ''graph pruning''\<rparr>"
  have lexical: "bm25_search lexical_engine ''pruning'' 20 = [?b3, ?b1]"
    by (simp add: bm25_search_def lexical_engine_def quiet_engine_def slice_to_def)
  have store: "all_ids lexical_engine = [''p1'', ''p2'', ''p3'']"
    "all_metadatas lexical_engine = [[], [], []]"
    "embeddings lexical_engine ''pruning'' = Raised"
    "get_scores lexical_engine (split (lower ''pruning'')) = [1, 0, 3]"
    "argsort lexical_engine [1, 0, 3] = [1, 0, 2]"
    by (simp_all add: lexical_engine_def quiet_engine_def)
  show ?thesis
    using embedding_failure_falls_back_to_lexical[of "''pruning''" False lexical_engine
        "''pruning''" 10 "[]" "3/5" "\<lambda>t. Raised" "''pruning''" "\<lambda>emb n. Inl ChromaError" 20]
    by (simp add: lexical store fuse_eval slice_to_def lexical_ids_def)
qed

end
